theory Spec2Isabelle
  imports Main
begin

section \<open>The environment of the logger\<close>

text \<open>
  The logger of \<^verbatim>\<open>micrologger/core.py\<close> touches three things outside itself: the
  file system (\<^verbatim>\<open>open\<close>, \<^verbatim>\<open>os.rename\<close>), the console (\<^verbatim>\<open>print\<close>) and the clock
  (\<^verbatim>\<open>time.localtime\<close>). The file system and the console are a \<open>world\<close> value that every
  operation takes and returns; the clock reading is an argument of each emit call.

  Exceptions are values. A procedure returns \<open>(exn option, world)\<close>: \<open>None\<close> is a normal
  return, \<open>Some e\<close> is the exception \<open>e\<close> leaving the procedure, and the world is what the
  procedure had done to the files and the console by then.
\<close>

datatype exn =
    OSError string
  | ValueError
  | AttributeError
  | KeyError string

record world =
  files :: "string \<rightharpoonup> string"
  unwritable :: "string set"
  stdout :: "string list"

text \<open>
  \<open>files\<close> maps a path to the content of the regular file there. \<open>unwritable\<close> holds the
  paths that cannot be created, truncated or renamed (a read-only file or medium, a
  missing directory, an empty name). Opening a missing file for reading and opening an
  unwritable path for writing raise \<^verbatim>\<open>OSError\<close>; the text it carries is what \<^verbatim>\<open>str(e)\<close>
  shows. \<^verbatim>\<open>with open(p, "w") as f: f.write(c)\<close> is one step that replaces the content.
\<close>

definition open_read :: "string \<Rightarrow> world \<Rightarrow> exn + string" where
  "open_read p w =
     (case files w p of
        None \<Rightarrow> Inl (OSError ''[Errno 2] ENOENT'')
      | Some c \<Rightarrow> Inr c)"

definition open_write :: "string \<Rightarrow> string \<Rightarrow> world \<Rightarrow> exn + world" where
  "open_write p c w =
     (if p \<in> unwritable w then Inl (OSError ''[Errno 13] EACCES'')
      else Inr (w\<lparr>files := (files w)(p \<mapsto> c)\<rparr>))"

text \<open>
  \<^verbatim>\<open>os.rename(src, dst)\<close> as Python documents it for POSIX: a destination that exists is
  replaced silently.
\<close>

definition os_rename :: "string \<Rightarrow> string \<Rightarrow> world \<Rightarrow> exn + world" where
  "os_rename src dst w =
     (case files w src of
        None \<Rightarrow> Inl (OSError ''[Errno 2] ENOENT'')
      | Some c \<Rightarrow>
          if src \<in> unwritable w \<or> dst \<in> unwritable w
          then Inl (OSError ''[Errno 13] EACCES'')
          else Inr (w\<lparr>files := ((files w)(src := None))(dst \<mapsto> c)\<rparr>))"

definition print_line :: "string \<Rightarrow> world \<Rightarrow> world" where
  "print_line s w = w\<lparr>stdout := stdout w @ [s]\<rparr>"

section \<open>JSON values and the JSON library\<close>

text \<open>
  \<^verbatim>\<open>ujson\<close> is a library, not code of the logger. The logger's operations take it as a
  parameter \<open>J\<close>: \<open>ujson_dump J v\<close> is the text \<^verbatim>\<open>ujson.dump(v, f)\<close> writes and
  \<open>ujson_load J s\<close> is what \<^verbatim>\<open>ujson.load(f)\<close> returns on a file holding \<open>s\<close>, with \<open>None\<close>
  for the \<^verbatim>\<open>ValueError\<close> it raises on text that is not JSON. A dictionary is an
  association list in insertion order.
\<close>

datatype json =
    JNull
  | JBool bool
  | JInt int
  | JFloat int int
  | JStr string
  | JArr "json list"
  | JObj "(string \<times> json) list"

record json_lib =
  ujson_load :: "string \<Rightarrow> json option"
  ujson_dump :: "json \<Rightarrow> string"

section \<open>The class Logger\<close>

text \<open>
  The methods keep their names, with \<open>u_\<close> for a leading underscore: \<open>u_log\<close> is
  \<^verbatim>\<open>_log\<close>, \<open>u_rotate_file\<close> is \<^verbatim>\<open>_rotate_file\<close>, \<open>u_format_timestamp\<close> is
  \<^verbatim>\<open>_format_timestamp\<close>, and \<open>Logger_init\<close> is \<^verbatim>\<open>__init__\<close>. Every method takes the logger
  \<open>self\<close>; the methods that assign to an attribute return the logger, the others the
  world.
\<close>

subsection \<open>Class attributes\<close>

definition LEVELS :: "(string \<times> int) list" where
  "LEVELS =
     [(''DEBUG'', 0), (''INFO'', 1), (''WARNING'', 2), (''ERROR'', 3), (''CRITICAL'', 4),
      (''TRACE'', - 1)]"

abbreviation ESC :: char where
  "ESC \<equiv> CHR 0x1B"

abbreviation NL :: char where
  "NL \<equiv> CHR 0x0A"

definition COLORS :: "(string \<times> string) list" where
  "COLORS =
     [(''DEBUG'', ESC # ''[94m''), (''INFO'', ESC # ''[92m''), (''WARNING'', ESC # ''[93m''),
      (''ERROR'', ESC # ''[91m''), (''CRITICAL'', ESC # ''[41m''), (''TRACE'', ESC # ''[37m''),
      (''RESET'', ESC # ''[0m'')]"

subsection \<open>Instance attributes\<close>

text \<open>
  \<open>current_level\<close> holds an integer rank after \<^verbatim>\<open>__init__\<close> and \<^verbatim>\<open>set_level\<close>, and
  \<^verbatim>\<open>float("inf")\<close> after \<^verbatim>\<open>disable\<close>.
\<close>

datatype pynum = PyInt int | PyInf

fun py_ge :: "int \<Rightarrow> pynum \<Rightarrow> bool" where
  "py_ge r (PyInt m) = (r \<ge> m)"
| "py_ge r PyInf = False"

fun py_gt :: "pynum \<Rightarrow> pynum \<Rightarrow> bool" where
  "py_gt (PyInt a) (PyInt b) = (a > b)"
| "py_gt PyInf (PyInt b) = True"
| "py_gt a PyInf = False"

record logger =
  current_level :: pynum
  log_to_console :: bool
  log_to_file :: bool
  file_name :: string
  max_file_size :: int
  use_colors :: bool
  log_format :: string

subsection \<open>str.upper and dict.get\<close>

definition upper_char :: "char \<Rightarrow> char" where
  "upper_char c =
     (let n = (of_char c :: nat)
      in if 97 \<le> n \<and> n \<le> 122 then char_of (n - 32) else c)"

definition upper :: "string \<Rightarrow> string" where
  "upper s = map upper_char s"

definition LEVELS_get :: "string \<Rightarrow> int \<Rightarrow> int" where
  "LEVELS_get k d = (case map_of LEVELS k of Some r \<Rightarrow> r | None \<Rightarrow> d)"

subsection \<open>__init__ (lines 26-56)\<close>

text \<open>
  The JSON branch writes the empty array inside \<^verbatim>\<open>try ... except OSError\<close> and reports a
  failure with \<^verbatim>\<open>print\<close>; the other branch writes its line outside any \<^verbatim>\<open>try\<close>.
\<close>

definition Logger_init ::
  "json_lib \<Rightarrow> string \<Rightarrow> bool \<Rightarrow> bool \<Rightarrow> string \<Rightarrow> int \<Rightarrow> bool \<Rightarrow> string \<Rightarrow> world
     \<Rightarrow> (exn + logger) \<times> world" where
  "Logger_init J level to_console to_file fname max_size colors fmt w =
     (let self = \<lparr>current_level = PyInt (LEVELS_get (upper level) 1),
                  log_to_console = to_console, log_to_file = to_file, file_name = fname,
                  max_file_size = max_size, use_colors = colors, log_format = fmt\<rparr>
      in if log_to_file self then
           if log_format self = ''json'' then
             (case open_write (file_name self) (ujson_dump J (JArr [])) w of
                Inr w' \<Rightarrow> (Inr self, w')
              | Inl (OSError e) \<Rightarrow>
                  (Inr self, print_line (''Error initializing log file: '' @ e) w)
              | Inl x \<Rightarrow> (Inl x, w))
           else
             (case open_write (file_name self) (''Logger initialized.'' @ [NL]) w of
                Inr w' \<Rightarrow> (Inr self, w')
              | Inl x \<Rightarrow> (Inl x, w))
         else (Inr self, w))"

subsection \<open>set_level (lines 58-60) and disable (lines 149-151)\<close>

definition set_level :: "logger \<Rightarrow> string \<Rightarrow> logger" where
  "set_level self level = self\<lparr>current_level := PyInt (LEVELS_get (upper level) 1)\<rparr>"

definition disable :: "logger \<Rightarrow> logger" where
  "disable self = self\<lparr>current_level := PyInf\<rparr>"

subsection \<open>_format_timestamp (lines 62-68)\<close>

text \<open>
  The six fields of \<^verbatim>\<open>time.localtime()\<close> the method reads. \<open>fmt_d w n\<close> is Python's
  \<^verbatim>\<open>"{:0wd}".format(n)\<close>: the decimal digits, padded with zeros on the left to \<open>w\<close>
  characters, the sign counted in the width.
\<close>

record localtime =
  tm_year :: int
  tm_mon :: int
  tm_mday :: int
  tm_hour :: int
  tm_min :: int
  tm_sec :: int

fun digits :: "nat \<Rightarrow> string" where
  "digits n =
     (if n < 10 then [char_of (48 + n)]
      else digits (n div 10) @ [char_of (48 + n mod 10)])"

declare digits.simps [simp del]

definition zfill :: "nat \<Rightarrow> string \<Rightarrow> string" where
  "zfill w s = replicate (w - length s) CHR ''0'' @ s"

definition fmt_d :: "nat \<Rightarrow> int \<Rightarrow> string" where
  "fmt_d w n =
     (if n < 0 then CHR ''-'' # zfill (w - 1) (digits (nat (- n)))
      else zfill w (digits (nat n)))"

definition u_format_timestamp :: "localtime \<Rightarrow> string" where
  "u_format_timestamp current_time =
     fmt_d 4 (tm_year current_time) @ ''-'' @ fmt_d 2 (tm_mon current_time) @ ''-'' @
     fmt_d 2 (tm_mday current_time) @ '' '' @ fmt_d 2 (tm_hour current_time) @ '':'' @
     fmt_d 2 (tm_min current_time) @ '':'' @ fmt_d 2 (tm_sec current_time)"

subsection \<open>_rotate_file (lines 70-85)\<close>

text \<open>
  \<open>rotate_try\<close> is the body of the \<^verbatim>\<open>try\<close> (lines 74-83); \<open>u_rotate_file\<close> adds the guard
  on \<open>max_file_size\<close> and the handler \<^verbatim>\<open>except OSError: pass\<close>. The size is where
  \<^verbatim>\<open>f.seek(0, 2); f.tell()\<close> ends up: the length of the content.
\<close>

definition fresh_content :: "json_lib \<Rightarrow> logger \<Rightarrow> string" where
  "fresh_content J self =
     (if log_format self = ''json'' then ujson_dump J (JArr [])
      else ''Log rotated.'' @ [NL])"

definition rotate_try :: "json_lib \<Rightarrow> logger \<Rightarrow> world \<Rightarrow> exn option \<times> world" where
  "rotate_try J self w =
     (case open_read (file_name self) w of
        Inl e \<Rightarrow> (Some e, w)
      | Inr c \<Rightarrow>
          (let file_size = int (length c)
           in if file_size > max_file_size self then
                (case os_rename (file_name self) (file_name self @ ''.old'') w of
                   Inl e \<Rightarrow> (Some e, w)
                 | Inr w1 \<Rightarrow>
                     (case open_write (file_name self) (fresh_content J self) w1 of
                        Inl e \<Rightarrow> (Some e, w1)
                      | Inr w2 \<Rightarrow> (None, w2)))
              else (None, w)))"

definition u_rotate_file :: "json_lib \<Rightarrow> logger \<Rightarrow> world \<Rightarrow> exn option \<times> world" where
  "u_rotate_file J self w =
     (if max_file_size self > 0 then
        (case rotate_try J self w of
           (Some (OSError e), w') \<Rightarrow> (None, w')
         | r \<Rightarrow> r)
      else (None, w))"

subsection \<open>_log (lines 87-123)\<close>

text \<open>
  \<open>make_log_message\<close> builds the dictionary of lines 91-98. \<open>persist_try\<close> is the body of the
  \<^verbatim>\<open>try\<close> (lines 110-117): \<^verbatim>\<open>logs.append\<close> exists only when \<^verbatim>\<open>ujson.load\<close> returned a list,
  and raises \<^verbatim>\<open>AttributeError\<close> on any other value. \<open>persist\<close> adds the two handlers
  (lines 118-123); the write in the \<^verbatim>\<open>ValueError\<close> handler is not inside a \<^verbatim>\<open>try\<close> of its
  own. \<open>console_message\<close> is lines 102-104.
\<close>

definition make_log_message :: "logger \<Rightarrow> string \<Rightarrow> string \<Rightarrow> string \<Rightarrow> (string \<times> json) list" where
  "make_log_message self timestamp level message =
     [(''timestamp'', JStr timestamp), (''level'', JStr level), (''message'', JStr message)] @
     (case map_of COLORS level of
        Some c \<Rightarrow> if use_colors self then [(''color'', JStr c)] else []
      | None \<Rightarrow> [])"

definition console_message :: "logger \<Rightarrow> string \<Rightarrow> string \<Rightarrow> string \<Rightarrow> string" where
  "console_message self timestamp level message =
     (let plain = ''['' @ timestamp @ '']['' @ level @ ''] '' @ message
      in case map_of COLORS level of
           Some c \<Rightarrow>
             if use_colors self then c @ plain @ the (map_of COLORS ''RESET'') else plain
         | None \<Rightarrow> plain)"

definition persist_try ::
  "json_lib \<Rightarrow> logger \<Rightarrow> (string \<times> json) list \<Rightarrow> world \<Rightarrow> exn option \<times> world" where
  "persist_try J self log_message w =
     (case open_read (file_name self) w of
        Inl e \<Rightarrow> (Some e, w)
      | Inr c \<Rightarrow>
          (case ujson_load J c of
             None \<Rightarrow> (Some ValueError, w)
           | Some (JArr logs) \<Rightarrow>
               (case open_write (file_name self) (ujson_dump J (JArr (logs @ [JObj log_message]))) w of
                  Inl e \<Rightarrow> (Some e, w)
                | Inr w' \<Rightarrow> (None, w'))
           | Some other \<Rightarrow> (Some AttributeError, w)))"

definition persist ::
  "json_lib \<Rightarrow> logger \<Rightarrow> (string \<times> json) list \<Rightarrow> world \<Rightarrow> exn option \<times> world" where
  "persist J self log_message w =
     (case persist_try J self log_message w of
        (Some (OSError e), w') \<Rightarrow> (None, print_line (''Error writing to log file: '' @ e) w')
      | (Some ValueError, w') \<Rightarrow>
          (case open_write (file_name self) (ujson_dump J (JArr [JObj log_message])) w' of
             Inl e \<Rightarrow> (Some e, w')
           | Inr w'' \<Rightarrow> (None, w''))
      | r \<Rightarrow> r)"

definition u_log ::
  "json_lib \<Rightarrow> logger \<Rightarrow> localtime \<Rightarrow> string \<Rightarrow> string \<Rightarrow> world \<Rightarrow> exn option \<times> world" where
  "u_log J self now level message w =
     (case map_of LEVELS level of
        None \<Rightarrow> (Some (KeyError level), w)
      | Some r \<Rightarrow>
          if py_ge r (current_level self) then
            (let timestamp = u_format_timestamp now;
                 log_message = make_log_message self timestamp level message;
                 w1 = (if log_to_console self
                       then print_line (console_message self timestamp level message) w
                       else w)
             in if log_to_file self then
                  (case u_rotate_file J self w1 of
                     (Some e, w2) \<Rightarrow> (Some e, w2)
                   | (None, w2) \<Rightarrow> persist J self log_message w2)
                else (None, w1))
          else (None, w))"

subsection \<open>The six entry points (lines 125-147)\<close>

definition debug :: "json_lib \<Rightarrow> logger \<Rightarrow> localtime \<Rightarrow> string \<Rightarrow> world \<Rightarrow> exn option \<times> world" where
  "debug J self now message = u_log J self now ''DEBUG'' message"

definition info :: "json_lib \<Rightarrow> logger \<Rightarrow> localtime \<Rightarrow> string \<Rightarrow> world \<Rightarrow> exn option \<times> world" where
  "info J self now message = u_log J self now ''INFO'' message"

definition warning :: "json_lib \<Rightarrow> logger \<Rightarrow> localtime \<Rightarrow> string \<Rightarrow> world \<Rightarrow> exn option \<times> world" where
  "warning J self now message = u_log J self now ''WARNING'' message"

definition error :: "json_lib \<Rightarrow> logger \<Rightarrow> localtime \<Rightarrow> string \<Rightarrow> world \<Rightarrow> exn option \<times> world" where
  "error J self now message = u_log J self now ''ERROR'' message"

definition critical :: "json_lib \<Rightarrow> logger \<Rightarrow> localtime \<Rightarrow> string \<Rightarrow> world \<Rightarrow> exn option \<times> world" where
  "critical J self now message = u_log J self now ''CRITICAL'' message"

definition trace :: "json_lib \<Rightarrow> logger \<Rightarrow> localtime \<Rightarrow> string \<Rightarrow> world \<Rightarrow> exn option \<times> world" where
  "trace J self now message = u_log J self now ''TRACE'' message"

text \<open>
  The six levels, and \<open>emit\<close>: the entry point of a level. \<open>level_name\<close> is the string
  the entry point passes to \<^verbatim>\<open>_log\<close> and \<open>rank\<close> its value in \<^verbatim>\<open>LEVELS\<close>.
\<close>

datatype severity = TRACE | DEBUG | INFO | WARNING | ERROR | CRITICAL

fun level_name :: "severity \<Rightarrow> string" where
  "level_name TRACE = ''TRACE''"
| "level_name DEBUG = ''DEBUG''"
| "level_name INFO = ''INFO''"
| "level_name WARNING = ''WARNING''"
| "level_name ERROR = ''ERROR''"
| "level_name CRITICAL = ''CRITICAL''"

fun rank :: "severity \<Rightarrow> int" where
  "rank TRACE = - 1"
| "rank DEBUG = 0"
| "rank INFO = 1"
| "rank WARNING = 2"
| "rank ERROR = 3"
| "rank CRITICAL = 4"

fun emit ::
  "json_lib \<Rightarrow> logger \<Rightarrow> localtime \<Rightarrow> severity \<Rightarrow> string \<Rightarrow> world \<Rightarrow> exn option \<times> world" where
  "emit J self now TRACE message = trace J self now message"
| "emit J self now DEBUG message = debug J self now message"
| "emit J self now INFO message = info J self now message"
| "emit J self now WARNING message = warning J self now message"
| "emit J self now ERROR message = error J self now message"
| "emit J self now CRITICAL message = critical J self now message"

text \<open>
  A caller making emit calls one after the other; an exception that leaves a call ends
  the sequence, as it would end the calling code.
\<close>

fun emit_all ::
  "json_lib \<Rightarrow> logger \<Rightarrow> (localtime \<times> severity \<times> string) list \<Rightarrow> world
     \<Rightarrow> exn option \<times> world" where
  "emit_all J self [] w = (None, w)"
| "emit_all J self ((now, L, message) # calls) w =
     (case emit J self now L message w of
        (Some e, w') \<Rightarrow> (Some e, w')
      | (None, w') \<Rightarrow> emit_all J self calls w')"

section \<open>A JSON library to run the logger with\<close>

text \<open>
  A concrete library for the parameter \<open>J\<close>, so that the logger can be run on concrete
  files: a writer of compact JSON and a recursive-descent reader of the JSON grammar. The
  reader takes fuel, one unit for each nested call, and \<open>loads\<close> gives it more than the
  length of the text. Characters are bytes here; a four-digit hexadecimal escape above 255 is outside the
  model's character type and is reduced modulo 256. A number with a fraction or an
  exponent is kept as a mantissa and a decimal exponent.
\<close>

subsection \<open>Writing\<close>

definition hex_digit :: "nat \<Rightarrow> char" where
  "hex_digit n = (if n < 10 then char_of (48 + n) else char_of (87 + n))"

definition escape_char :: "char \<Rightarrow> string" where
  "escape_char c =
     (let n = (of_char c :: nat)
      in if c = CHR 0x22 then [CHR 0x5C, CHR 0x22]
         else if c = CHR 0x5C then [CHR 0x5C, CHR 0x5C]
         else if c = CHR 0x0A then [CHR 0x5C, CHR ''n'']
         else if c = CHR 0x0D then [CHR 0x5C, CHR ''r'']
         else if c = CHR 0x09 then [CHR 0x5C, CHR ''t'']
         else if n < 32 then [CHR 0x5C, CHR ''u'', CHR ''0'', CHR ''0'', hex_digit (n div 16), hex_digit (n mod 16)]
         else [c])"

definition dump_string :: "string \<Rightarrow> string" where
  "dump_string s = CHR 0x22 # concat (map escape_char s) @ [CHR 0x22]"

definition dump_int :: "int \<Rightarrow> string" where
  "dump_int i = (if i < 0 then CHR ''-'' # digits (nat (- i)) else digits (nat i))"

fun dump_value :: "json \<Rightarrow> string"
  and dump_elems :: "json list \<Rightarrow> string"
  and dump_members :: "(string \<times> json) list \<Rightarrow> string" where
  "dump_value JNull = ''null''"
| "dump_value (JBool b) = (if b then ''true'' else ''false'')"
| "dump_value (JInt i) = dump_int i"
| "dump_value (JFloat m e) = dump_int m @ ''e'' @ dump_int e"
| "dump_value (JStr s) = dump_string s"
| "dump_value (JArr xs) = ''['' @ dump_elems xs @ '']''"
| "dump_value (JObj kvs) = ''{'' @ dump_members kvs @ ''}''"
| "dump_elems [] = []"
| "dump_elems [x] = dump_value x"
| "dump_elems (x # y # ys) = dump_value x @ '','' @ dump_elems (y # ys)"
| "dump_members [] = []"
| "dump_members [(k, v)] = dump_string k @ '':'' @ dump_value v"
| "dump_members ((k, v) # p # ps) = dump_string k @ '':'' @ dump_value v @ '','' @ dump_members (p # ps)"

subsection \<open>Reading\<close>

definition is_ws :: "char \<Rightarrow> bool" where
  "is_ws c = (c = CHR '' '' \<or> c = CHR 0x0A \<or> c = CHR 0x0D \<or> c = CHR 0x09)"

definition skip_ws :: "string \<Rightarrow> string" where
  "skip_ws s = dropWhile is_ws s"

definition is_digit :: "char \<Rightarrow> bool" where
  "is_digit c = (let n = (of_char c :: nat) in 48 \<le> n \<and> n \<le> 57)"

definition hex_val :: "char \<Rightarrow> nat option" where
  "hex_val c =
     (let n = (of_char c :: nat)
      in if 48 \<le> n \<and> n \<le> 57 then Some (n - 48)
         else if 97 \<le> n \<and> n \<le> 102 then Some (n - 87)
         else if 65 \<le> n \<and> n \<le> 70 then Some (n - 55)
         else None)"

definition hex4 :: "char \<Rightarrow> char \<Rightarrow> char \<Rightarrow> char \<Rightarrow> nat option" where
  "hex4 a b c d =
     (case (hex_val a, hex_val b, hex_val c, hex_val d) of
        (Some x, Some y, Some z, Some u) \<Rightarrow> Some (((x * 16 + y) * 16 + z) * 16 + u)
      | _ \<Rightarrow> None)"

definition unescape :: "char \<Rightarrow> char option" where
  "unescape c =
     (if c = CHR 0x22 \<or> c = CHR 0x5C \<or> c = CHR ''/'' then Some c
      else if c = CHR ''n'' then Some (CHR 0x0A)
      else if c = CHR ''r'' then Some (CHR 0x0D)
      else if c = CHR ''t'' then Some (CHR 0x09)
      else if c = CHR ''b'' then Some (CHR 0x08)
      else if c = CHR ''f'' then Some (CHR 0x0C)
      else None)"

fun parse_string :: "string \<Rightarrow> (string \<times> string) option" where
  "parse_string [] = None"
| "parse_string (c # r) =
     (if c = CHR 0x22 then Some ([], r)
      else if c = CHR 0x5C then
        (case r of
           [] \<Rightarrow> None
         | e # r' \<Rightarrow>
             if e = CHR ''u'' then
               (case r' of
                  a # b # x # y # r'' \<Rightarrow>
                    (case hex4 a b x y of
                       None \<Rightarrow> None
                     | Some n \<Rightarrow>
                         (case parse_string r'' of
                            None \<Rightarrow> None
                          | Some (t, rest) \<Rightarrow> Some (char_of n # t, rest)))
                | _ \<Rightarrow> None)
             else
               (case unescape e of
                  None \<Rightarrow> None
                | Some d \<Rightarrow>
                    (case parse_string r' of
                       None \<Rightarrow> None
                     | Some (t, rest) \<Rightarrow> Some (d # t, rest))))
      else if (of_char c :: nat) < 32 then None
      else
        (case parse_string r of
           None \<Rightarrow> None
         | Some (t, rest) \<Rightarrow> Some (c # t, rest)))"

definition digits_val :: "string \<Rightarrow> nat" where
  "digits_val ds = foldl (\<lambda>a c. a * 10 + (of_char c - 48)) 0 ds"

definition take_digits :: "string \<Rightarrow> string \<times> string" where
  "take_digits s = (takeWhile is_digit s, dropWhile is_digit s)"

definition parse_sign :: "string \<Rightarrow> bool \<times> string" where
  "parse_sign s =
     (case s of
        [] \<Rightarrow> (False, s)
      | c # r \<Rightarrow> if c = CHR ''-'' then (True, r) else if c = CHR ''+'' then (False, r) else (False, s))"

definition signed :: "bool \<Rightarrow> nat \<Rightarrow> int" where
  "signed neg n = (if neg then - int n else int n)"

definition parse_exponent :: "string \<Rightarrow> (int \<times> string) option option" where
  "parse_exponent s =
     (case s of
        [] \<Rightarrow> Some None
      | c # r \<Rightarrow>
          if c = CHR ''e'' \<or> c = CHR ''E'' then
            (let (neg, r1) = parse_sign r; (ds, r2) = take_digits r1
             in if ds = [] then None else Some (Some (signed neg (digits_val ds), r2)))
          else Some None)"

definition parse_number :: "string \<Rightarrow> (json \<times> string) option" where
  "parse_number s =
     (let (neg, r0) = (case s of [] \<Rightarrow> (False, s) | c # r \<Rightarrow> if c = CHR ''-'' then (True, r) else (False, s));
          (ip, r1) = take_digits r0
      in if ip = [] then None
         else
           (case (case r1 of
                    [] \<Rightarrow> Some ([], r1)
                  | c # r \<Rightarrow>
                      if c = CHR ''.'' then
                        (let (fp, r2) = take_digits r in if fp = [] then None else Some (fp, r2))
                      else Some ([], r1)) of
              None \<Rightarrow> None
            | Some (fp, r2) \<Rightarrow>
                (case parse_exponent r2 of
                   None \<Rightarrow> None
                 | Some None \<Rightarrow>
                     if fp = [] then Some (JInt (signed neg (digits_val ip)), r2)
                     else Some (JFloat (signed neg (digits_val (ip @ fp))) (- int (length fp)), r2)
                 | Some (Some (e, r3)) \<Rightarrow>
                     Some (JFloat (signed neg (digits_val (ip @ fp))) (e - int (length fp)), r3))))"

fun strip_prefix :: "string \<Rightarrow> string \<Rightarrow> string option" where
  "strip_prefix [] s = Some s"
| "strip_prefix (p # ps) [] = None"
| "strip_prefix (p # ps) (c # s) = (if p = c then strip_prefix ps s else None)"

definition parse_atom :: "string \<Rightarrow> (json \<times> string) option" where
  "parse_atom s =
     (case strip_prefix ''null'' s of
        Some r \<Rightarrow> Some (JNull, r)
      | None \<Rightarrow>
          (case strip_prefix ''true'' s of
             Some r \<Rightarrow> Some (JBool True, r)
           | None \<Rightarrow>
               (case strip_prefix ''false'' s of
                  Some r \<Rightarrow> Some (JBool False, r)
                | None \<Rightarrow> parse_number s)))"

fun parse_value :: "nat \<Rightarrow> string \<Rightarrow> (json \<times> string) option"
  and parse_elems :: "nat \<Rightarrow> string \<Rightarrow> (json list \<times> string) option"
  and parse_members :: "nat \<Rightarrow> string \<Rightarrow> ((string \<times> json) list \<times> string) option" where
  "parse_value 0 s = None"
| "parse_value (Suc n) s =
     (case skip_ws s of
        [] \<Rightarrow> None
      | c # r \<Rightarrow>
          if c = CHR 0x22 then
            (case parse_string r of None \<Rightarrow> None | Some (t, r') \<Rightarrow> Some (JStr t, r'))
          else if c = CHR ''['' then
            (case skip_ws r of
               [] \<Rightarrow> None
             | d # r' \<Rightarrow>
                 if d = CHR '']'' then Some (JArr [], r')
                 else (case parse_elems n (d # r') of
                         None \<Rightarrow> None
                       | Some (xs, r'') \<Rightarrow> Some (JArr xs, r'')))
          else if c = CHR ''{'' then
            (case skip_ws r of
               [] \<Rightarrow> None
             | d # r' \<Rightarrow>
                 if d = CHR ''}'' then Some (JObj [], r')
                 else (case parse_members n (d # r') of
                         None \<Rightarrow> None
                       | Some (kvs, r'') \<Rightarrow> Some (JObj kvs, r'')))
          else parse_atom (c # r))"
| "parse_elems 0 s = None"
| "parse_elems (Suc n) s =
     (case parse_value n s of
        None \<Rightarrow> None
      | Some (v, r) \<Rightarrow>
          (case skip_ws r of
             [] \<Rightarrow> None
           | c # r' \<Rightarrow>
               if c = CHR '','' then
                 (case parse_elems n r' of
                    None \<Rightarrow> None
                  | Some (vs, r'') \<Rightarrow> Some (v # vs, r''))
               else if c = CHR '']'' then Some ([v], r')
               else None))"
| "parse_members 0 s = None"
| "parse_members (Suc n) s =
     (case skip_ws s of
        [] \<Rightarrow> None
      | q # r0 \<Rightarrow>
          if q = CHR 0x22 then
            (case parse_string r0 of
               None \<Rightarrow> None
             | Some (k, r1) \<Rightarrow>
                 (case skip_ws r1 of
                    [] \<Rightarrow> None
                  | c # r2 \<Rightarrow>
                      if c = CHR '':'' then
                        (case parse_value n r2 of
                           None \<Rightarrow> None
                         | Some (v, r3) \<Rightarrow>
                             (case skip_ws r3 of
                                [] \<Rightarrow> None
                              | d # r4 \<Rightarrow>
                                  if d = CHR '','' then
                                    (case parse_members n r4 of
                                       None \<Rightarrow> None
                                     | Some (kvs, r5) \<Rightarrow> Some ((k, v) # kvs, r5))
                                  else if d = CHR ''}'' then Some ([(k, v)], r4)
                                  else None))
                      else None))
          else None)"

definition loads :: "string \<Rightarrow> json option" where
  "loads s =
     (case parse_value (Suc (length s)) s of
        None \<Rightarrow> None
      | Some (v, r) \<Rightarrow> if skip_ws r = [] then Some v else None)"

definition ujson :: json_lib where
  "ujson = \<lparr>ujson_load = loads, ujson_dump = dump_value\<rparr>"

text \<open>
  Where the text of a value ends inside the text of an array or an object: at the end of
  the text, or before a comma or a closing bracket.
\<close>

definition stop :: "string \<Rightarrow> bool" where
  "stop r =
     (case r of
        [] \<Rightarrow> True
      | c # _ \<Rightarrow> c = CHR '','' \<or> c = CHR '']'' \<or> c = CHR ''}'')"

section \<open>Notions the statements use\<close>

text \<open>
  What an operation may do to the log file in format \<^verbatim>\<open>json\<close>: leave it as it was, or
  leave in it the text \<^verbatim>\<open>ujson.dump\<close> writes for a list.
\<close>

definition array_or_kept :: "json_lib \<Rightarrow> string option \<Rightarrow> string option \<Rightarrow> bool" where
  "array_or_kept J before after =
     (after = before \<or> (\<exists>xs. after = Some (ujson_dump J (JArr xs))))"

text \<open>
  A library that reads back as a list every text it writes for a list, and a file whose
  content the library reads as a list.
\<close>

definition reads_arrays :: "json_lib \<Rightarrow> bool" where
  "reads_arrays J = (\<forall>xs. ujson_load J (ujson_dump J (JArr xs)) = Some (JArr xs))"

definition holds_array :: "json_lib \<Rightarrow> string option \<Rightarrow> bool" where
  "holds_array J file = (\<exists>c xs. file = Some c \<and> ujson_load J c = Some (JArr xs))"

text \<open>
  The object an emit call appends for a call \<open>(now, L, message)\<close>, and the text of the
  array of the objects of a list of calls.
\<close>

definition entry_of :: "logger \<Rightarrow> localtime \<times> severity \<times> string \<Rightarrow> json" where
  "entry_of self call =
     (case call of (now, L, message) \<Rightarrow>
        JObj (make_log_message self (u_format_timestamp now) (level_name L) message))"

definition array_text :: "json_lib \<Rightarrow> logger \<Rightarrow> (localtime \<times> severity \<times> string) list \<Rightarrow> string" where
  "array_text J self calls = ujson_dump J (JArr (map (entry_of self) calls))"

section \<open>Concrete loggers and worlds\<close>

text \<open>
  The inputs the theorems below are run on: a clock reading, worlds, and loggers as
  \<^verbatim>\<open>__init__\<close> builds them.
\<close>

definition noon :: localtime where
  "noon = \<lparr>tm_year = 2024, tm_mon = 1, tm_mday = 5, tm_hour = 9, tm_min = 3, tm_sec = 7\<rparr>"

definition no_directory :: world where
  "no_directory = \<lparr>files = Map.empty, unwritable = {''/logs/app.json''}, stdout = []\<rparr>"

definition file_only_logger :: logger where
  "file_only_logger =
     \<lparr>current_level = PyInt 1, log_to_console = False, log_to_file = True,
      file_name = ''/logs/app.json'', max_file_size = 0, use_colors = True,
      log_format = ''json''\<rparr>"

definition console_logger :: logger where
  "console_logger =
     \<lparr>current_level = PyInt 2, log_to_console = True, log_to_file = False,
      file_name = ''log.txt'', max_file_size = 0, use_colors = True,
      log_format = ''text''\<rparr>"

definition blank_world :: world where
  "blank_world = \<lparr>files = Map.empty, unwritable = {}, stdout = []\<rparr>"

definition old_entries :: string where
  "old_entries = dump_value (JArr [JObj [(''level'', JStr ''INFO''), (''message'', JStr ''old'')]])"

definition rotating_logger :: logger where
  "rotating_logger =
     \<lparr>current_level = PyInt 1, log_to_console = False, log_to_file = True,
      file_name = ''app.json'', max_file_size = 16, use_colors = False,
      log_format = ''json''\<rparr>"

definition full_world :: world where
  "full_world =
     \<lparr>files = [''app.json'' \<mapsto> old_entries, ''app.json.old'' \<mapsto> ''stale''],
      unwritable = {}, stdout = []\<rparr>"

definition garbled_world :: world where
  "garbled_world =
     \<lparr>files = [''app.json'' \<mapsto> ''[{oops''], unwritable = {}, stdout = []\<rparr>"

definition plain_logger :: logger where
  "plain_logger =
     \<lparr>current_level = PyInt 1, log_to_console = False, log_to_file = True,
      file_name = ''app.json'', max_file_size = 0, use_colors = False,
      log_format = ''json''\<rparr>"

definition text_logger :: logger where
  "text_logger =
     \<lparr>current_level = PyInt 1, log_to_console = True, log_to_file = True,
      file_name = ''app.log'', max_file_size = 0, use_colors = False,
      log_format = ''text''\<rparr>"

definition object_world :: world where
  "object_world = \<lparr>files = [''app.json'' \<mapsto> ''{}''], unwritable = {}, stdout = []\<rparr>"

definition read_only_world :: world where
  "read_only_world =
     \<lparr>files = [''app.json'' \<mapsto> ''[{oops''], unwritable = {''app.json''}, stdout = []\<rparr>"

definition console_file_logger :: logger where
  "console_file_logger =
     \<lparr>current_level = PyInt 1, log_to_console = True, log_to_file = True,
      file_name = ''app.json'', max_file_size = 0, use_colors = False,
      log_format = ''json''\<rparr>"

definition debug_logger :: logger where
  "debug_logger =
     \<lparr>current_level = PyInt 0, log_to_console = False, log_to_file = True,
      file_name = ''t.log'', max_file_size = 0, use_colors = False,
      log_format = ''json''\<rparr>"

definition two_calls :: "(localtime \<times> severity \<times> string) list" where
  "two_calls = [(noon, DEBUG, ''a''), (noon, INFO, ''b'')]"

definition entry_a :: json where
  "entry_a = JObj [(''timestamp'', JStr ''2024-01-05 09:03:07''), (''level'', JStr ''DEBUG''),
                   (''message'', JStr ''a'')]"

definition entry_b :: json where
  "entry_b = JObj [(''timestamp'', JStr ''2024-01-05 09:03:07''), (''level'', JStr ''INFO''),
                   (''message'', JStr ''b'')]"

section \<open>Basic facts\<close>

lemma LEVELS_level_name: "map_of LEVELS (level_name L) = Some (rank L)"
  by (cases L) (simp_all add: LEVELS_def)

lemma emit_u_log: "emit J self now L message w = u_log J self now (level_name L) message w"
  by (cases L) (simp_all add: trace_def debug_def info_def warning_def error_def critical_def)

lemma u_log_below:
  "map_of LEVELS level = Some r \<Longrightarrow> \<not> py_ge r (current_level self) \<Longrightarrow>
   u_log J self now level message w = (None, w)"
  by (simp add: u_log_def)

lemma emit_below:
  "\<not> py_ge (rank L) (current_level self) \<Longrightarrow> emit J self now L message w = (None, w)"
  by (simp add: emit_u_log u_log_below [OF LEVELS_level_name])

lemma emit_all_silent:
  "(\<And>L. \<not> py_ge (rank L) (current_level self)) \<Longrightarrow> emit_all J self calls w = (None, w)"
  by (induction calls) (auto simp: emit_below)

section \<open>The JSON library reads back what it writes\<close>

text \<open>
  The reader returns every value from the text the writer produces for it, with fuel
  to spare: the fuel \<open>loads\<close> starts with exceeds the length of the text, and each nested
  call of the reader has consumed at least one character.
\<close>

lemma is_digit_char_of: "(d::nat) < 10 \<Longrightarrow> is_digit (char_of (48 + d))"
  by (simp add: is_digit_def Let_def)

lemma digit_val_char_of: "(d::nat) < 10 \<Longrightarrow> (of_char (char_of (48 + d)) :: nat) - 48 = d"
  by simp

lemma digits_not_empty: "digits n \<noteq> []"
  by (subst digits.simps) simp

lemma digits_all: "c \<in> set (digits n) \<Longrightarrow> is_digit c"
proof (induction n arbitrary: c rule: digits.induct)
  case (1 n)
  show ?case
  proof (cases "n < 10")
    case True
    with "1.prems" show ?thesis
      by (subst (asm) digits.simps) (simp add: is_digit_char_of)
  next
    case False
    with "1.prems" "1.IH" show ?thesis
      by (subst (asm) digits.simps) (auto simp: is_digit_char_of)
  qed
qed

lemma digits_val_append:
  "foldl (\<lambda>a c. a * 10 + (of_char c - 48)) a (digits n) = a * 10 ^ length (digits n) + n"
proof (induction n arbitrary: a rule: digits.induct)
  case (1 n)
  show ?case
  proof (cases "n < 10")
    case True
    then show ?thesis
      by (subst (1 2) digits.simps) simp
  next
    case False
    then show ?thesis
      using "1.IH" [of a]
      by (subst (1 2) digits.simps) (simp add: algebra_simps)
  qed
qed

lemma digits_val_digits: "digits_val (digits n) = n"
  by (simp add: digits_val_def digits_val_append)


lemma stop_not_digit: "stop (c # r) \<Longrightarrow> \<not> is_digit c"
  by (auto simp: stop_def is_digit_def)

lemma take_digits_digits:
  "r = [] \<or> \<not> is_digit (hd r) \<Longrightarrow> take_digits (digits n @ r) = (digits n, r)"
proof -
  assume r: "r = [] \<or> \<not> is_digit (hd r)"
  have all: "\<forall>c \<in> set (digits n). is_digit c"
    using digits_all by blast
  have t: "takeWhile is_digit r = []" and d: "dropWhile is_digit r = r"
    using r by (cases r; simp)+
  show ?thesis
    using all t d by (simp add: take_digits_def takeWhile_append2 dropWhile_append2)
qed

lemma digits_hd: "\<exists>c cs. digits n = c # cs \<and> is_digit c"
  using digits_not_empty [of n] digits_all [of _ n] by (cases "digits n") auto

lemma is_digit_not_sign: "is_digit c \<Longrightarrow> c \<noteq> CHR ''-'' \<and> c \<noteq> CHR ''+'' \<and> c \<noteq> CHR ''.''
    \<and> c \<noteq> CHR ''e'' \<and> c \<noteq> CHR ''E'' \<and> c \<noteq> CHR ''n'' \<and> c \<noteq> CHR ''t'' \<and> c \<noteq> CHR ''f''
    \<and> c \<noteq> CHR 0x22 \<and> c \<noteq> CHR ''['' \<and> c \<noteq> CHR ''{'' \<and> \<not> is_ws c"
  by (auto simp: is_digit_def is_ws_def)

lemma stop_no_number: "stop r \<Longrightarrow>
    (r = [] \<or> \<not> is_digit (hd r)) \<and> (\<forall>c r'. r = c # r' \<longrightarrow> c \<noteq> CHR ''.'' \<and> c \<noteq> CHR ''e'' \<and> c \<noteq> CHR ''E'')"
  by (cases r) (auto simp: stop_def is_digit_def)

lemma parse_exponent_stop: "stop r \<Longrightarrow> parse_exponent r = Some None"
  by (cases r) (auto simp: parse_exponent_def stop_def)

lemma signed_nat: "signed (i < 0) (nat \<bar>i\<bar>) = i"
  by (simp add: signed_def)

lemma parse_unsigned:
  assumes "stop r"
  shows "(let (ip, r1) = take_digits (digits n @ r)
          in if ip = [] then None
             else
               (case (case r1 of
                        [] \<Rightarrow> Some ([], r1)
                      | c # r' \<Rightarrow>
                          if c = CHR ''.'' then
                            (let (fp, r2) = take_digits r' in if fp = [] then None else Some (fp, r2))
                          else Some ([], r1)) of
                  None \<Rightarrow> None
                | Some (fp, r2) \<Rightarrow>
                    (case parse_exponent r2 of
                       None \<Rightarrow> None
                     | Some None \<Rightarrow>
                         if fp = [] then Some (JInt (signed neg (digits_val ip)), r2)
                         else Some (JFloat (signed neg (digits_val (ip @ fp))) (- int (length fp)), r2)
                     | Some (Some (e, r3)) \<Rightarrow>
                         Some (JFloat (signed neg (digits_val (ip @ fp))) (e - int (length fp)), r3))))
         = Some (JInt (signed neg n), r)"
  using assms stop_no_number [OF assms] parse_exponent_stop [OF assms]
  by (cases r)
     (simp_all add: take_digits_digits take_digits_digits [where r = "[]", simplified]
        digits_not_empty digits_val_digits)

lemma parse_number_int: "stop r \<Longrightarrow> parse_number (dump_int i @ r) = Some (JInt i, r)"
proof (cases "i < 0")
  case True
  assume "stop r"
  from parse_unsigned [OF this, of "nat (- i)" True] True show ?thesis
    by (simp add: parse_number_def dump_int_def signed_def)
next
  case False
  assume s: "stop r"
  obtain c cs where d: "digits (nat i) = c # cs" "is_digit c"
    using digits_hd by blast
  from parse_unsigned [OF s, of "nat i" False] False d is_digit_not_sign [OF d(2)] show ?thesis
    by (simp add: parse_number_def dump_int_def signed_def)
qed


lemma parse_exponent_int:
  assumes "r = [] \<or> \<not> is_digit (hd r)"
  shows "parse_exponent (CHR ''e'' # dump_int e @ r) = Some (Some (e, r))"
proof (cases "e < 0")
  case True
  then show ?thesis
    using take_digits_digits [OF assms, of "nat (- e)"]
    by (simp add: parse_exponent_def dump_int_def parse_sign_def digits_not_empty
          digits_val_digits signed_def)
next
  case False
  obtain c cs where d: "digits (nat e) = c # cs" "is_digit c"
    using digits_hd by blast
  show ?thesis
    using False take_digits_digits [OF assms, of "nat e"] d is_digit_not_sign [OF d(2)]
      digits_val_digits [of "nat e"]
    by (simp add: parse_exponent_def dump_int_def parse_sign_def signed_def)
qed

lemma parse_mantissa:
  assumes "r = [] \<or> \<not> is_digit (hd r)"
  shows "(let (ip, r1) = take_digits (digits n @ CHR ''e'' # dump_int e @ r)
          in if ip = [] then None
             else
               (case (case r1 of
                        [] \<Rightarrow> Some ([], r1)
                      | c # r' \<Rightarrow>
                          if c = CHR ''.'' then
                            (let (fp, r2) = take_digits r' in if fp = [] then None else Some (fp, r2))
                          else Some ([], r1)) of
                  None \<Rightarrow> None
                | Some (fp, r2) \<Rightarrow>
                    (case parse_exponent r2 of
                       None \<Rightarrow> None
                     | Some None \<Rightarrow>
                         if fp = [] then Some (JInt (signed neg (digits_val ip)), r2)
                         else Some (JFloat (signed neg (digits_val (ip @ fp))) (- int (length fp)), r2)
                     | Some (Some (x, r3)) \<Rightarrow>
                         Some (JFloat (signed neg (digits_val (ip @ fp))) (x - int (length fp)), r3))))
         = Some (JFloat (signed neg n) e, r)"
proof -
  have "take_digits (digits n @ CHR ''e'' # dump_int e @ r) = (digits n, CHR ''e'' # dump_int e @ r)"
    by (rule take_digits_digits) (simp add: is_digit_def)
  then show ?thesis
    by (simp add: parse_exponent_int [OF assms] digits_not_empty digits_val_digits)
qed

lemma parse_number_float:
  assumes "stop r"
  shows "parse_number (dump_int m @ CHR ''e'' # dump_int e @ r) = Some (JFloat m e, r)"
proof -
  have nd: "r = [] \<or> \<not> is_digit (hd r)"
    using stop_no_number [OF assms] by simp
  show ?thesis
  proof (cases "m < 0")
    case True
    from parse_mantissa [OF nd, of "nat (- m)" e True] True show ?thesis
      by (simp add: parse_number_def dump_int_def signed_def)
  next
    case False
    obtain c cs where d: "digits (nat m) = c # cs" "is_digit c"
      using digits_hd by blast
    from parse_mantissa [OF nd, of "nat m" e False] False d is_digit_not_sign [OF d(2)]
    show ?thesis
      by (simp add: parse_number_def dump_int_def signed_def)
  qed
qed

lemma dump_int_hd:
  "\<exists>c cs. dump_int i = c # cs \<and> c \<noteq> CHR ''n'' \<and> c \<noteq> CHR ''t'' \<and> c \<noteq> CHR ''f''
      \<and> c \<noteq> CHR 0x22 \<and> c \<noteq> CHR ''['' \<and> c \<noteq> CHR ''{'' \<and> \<not> is_ws c"
proof (cases "i < 0")
  case True
  then show ?thesis by (simp add: dump_int_def is_ws_def)
next
  case False
  obtain c cs where d: "digits (nat i) = c # cs" "is_digit c"
    using digits_hd by blast
  with False is_digit_not_sign [OF d(2)] show ?thesis
    by (simp add: dump_int_def)
qed

lemma parse_atom_number:
  "c \<noteq> CHR ''n'' \<Longrightarrow> c \<noteq> CHR ''t'' \<Longrightarrow> c \<noteq> CHR ''f'' \<Longrightarrow>
   parse_atom (c # cs) = parse_number (c # cs)"
  by (simp add: parse_atom_def)

lemma parse_atom_words:
  "parse_atom (''null'' @ r) = Some (JNull, r)"
  "parse_atom (''true'' @ r) = Some (JBool True, r)"
  "parse_atom (''false'' @ r) = Some (JBool False, r)"
  by (simp_all add: parse_atom_def)


lemma hex_val_hex_digit: "d < 16 \<Longrightarrow> hex_val (hex_digit d) = Some d"
  by (auto simp: hex_val_def hex_digit_def Let_def)

lemma hex4_low:
  "n < 32 \<Longrightarrow> hex4 CHR ''0'' CHR ''0'' (hex_digit (n div 16)) (hex_digit (n mod 16)) = Some n"
proof -
  assume "n < 32"
  then have "n div 16 < 16" by simp
  moreover have "n mod 16 < 16" by simp
  moreover have "hex_val CHR ''0'' = Some 0" by (simp add: hex_val_def)
  ultimately show ?thesis
    by (simp add: hex4_def hex_val_hex_digit)
qed

lemma parse_string_char:
  assumes "parse_string rest = Some (t, r)"
  shows "parse_string (escape_char c @ rest) = Some (c # t, r)"
proof -
  let ?n = "of_char c :: nat"
  consider "c = CHR 0x22" | "c = CHR 0x5C" | "c = CHR 0x0A" | "c = CHR 0x0D" | "c = CHR 0x09"
    | "c \<noteq> CHR 0x22" "c \<noteq> CHR 0x5C" "c \<noteq> CHR 0x0A" "c \<noteq> CHR 0x0D" "c \<noteq> CHR 0x09" "?n < 32"
    | "c \<noteq> CHR 0x22" "c \<noteq> CHR 0x5C" "\<not> ?n < 32"
    by blast
  then show ?thesis
  proof cases
    case 6
    have "char_of ?n = c" by simp
    with 6 assms hex4_low [of ?n] show ?thesis
      by (simp add: escape_char_def Let_def)
  next
    case 7
    with assms show ?thesis
      by (auto simp: escape_char_def Let_def)
  qed (use assms in \<open>simp_all add: escape_char_def unescape_def\<close>)
qed

lemma parse_string_body:
  "parse_string (concat (map escape_char s) @ CHR 0x22 # r) = Some (s, r)"
  by (induction s) (simp_all add: parse_string_char)

lemma parse_string_dump: "\<exists>body. dump_string s @ r = CHR 0x22 # body \<and> parse_string body = Some (s, r)"
  by (simp add: dump_string_def parse_string_body)


lemma skip_ws_keep: "\<not> is_ws c \<Longrightarrow> skip_ws (c # s) = c # s"
  by (simp add: skip_ws_def)

lemma parse_value_atom:
  "\<not> is_ws c \<Longrightarrow> c \<noteq> CHR 0x22 \<Longrightarrow> c \<noteq> CHR ''['' \<Longrightarrow> c \<noteq> CHR ''{'' \<Longrightarrow>
   parse_value (Suc n) (c # s) = parse_atom (c # s)"
  by (simp add: skip_ws_keep)

lemma dump_int_not_close: "\<exists>c cs. dump_int i = c # cs \<and> c \<noteq> CHR '']'' \<and> c \<noteq> CHR ''}''"
proof (cases "i < 0")
  case True
  then show ?thesis by (simp add: dump_int_def)
next
  case False
  obtain c cs where d: "digits (nat i) = c # cs" "is_digit c"
    using digits_hd by blast
  with False show ?thesis
    by (auto simp: dump_int_def is_digit_def)
qed

lemma dump_value_hd:
  "\<exists>c cs. dump_value v = c # cs \<and> \<not> is_ws c \<and> c \<noteq> CHR '']'' \<and> c \<noteq> CHR ''}''"
proof (cases v)
  case (JInt i)
  with dump_int_hd [of i] dump_int_not_close [of i] show ?thesis by auto
next
  case (JFloat m e)
  with dump_int_hd [of m] dump_int_not_close [of m] show ?thesis by auto
qed (auto simp: is_ws_def dump_string_def)

lemma parse_value_int:
  assumes "stop r"
  shows "parse_value (Suc n) (dump_int i @ r) = Some (JInt i, r)"
proof -
  obtain c cs where d: "dump_int i = c # cs" "c \<noteq> CHR ''n''" "c \<noteq> CHR ''t''" "c \<noteq> CHR ''f''"
      "c \<noteq> CHR 0x22" "c \<noteq> CHR ''[''" "c \<noteq> CHR ''{''" "\<not> is_ws c"
    using dump_int_hd by blast
  have "parse_value (Suc n) (dump_int i @ r) = parse_number (dump_int i @ r)"
    using d parse_value_atom [of c n "cs @ r"] parse_atom_number [of c "cs @ r"] by simp
  then show ?thesis
    by (simp add: parse_number_int [OF assms])
qed

lemma parse_value_float:
  assumes "stop r"
  shows "parse_value (Suc n) (dump_int m @ CHR ''e'' # dump_int e @ r) = Some (JFloat m e, r)"
proof -
  obtain c cs where d: "dump_int m = c # cs" "c \<noteq> CHR ''n''" "c \<noteq> CHR ''t''" "c \<noteq> CHR ''f''"
      "c \<noteq> CHR 0x22" "c \<noteq> CHR ''[''" "c \<noteq> CHR ''{''" "\<not> is_ws c"
    using dump_int_hd by blast
  let ?s = "cs @ CHR ''e'' # dump_int e @ r"
  have "parse_value (Suc n) (dump_int m @ CHR ''e'' # dump_int e @ r) =
        parse_number (dump_int m @ CHR ''e'' # dump_int e @ r)"
    using d parse_value_atom [of c n ?s] parse_atom_number [of c ?s] by simp
  then show ?thesis
    by (simp add: parse_number_float [OF assms])
qed

lemma parse_value_word:
  "parse_value (Suc n) (''null'' @ r) = Some (JNull, r)"
  "parse_value (Suc n) (''true'' @ r) = Some (JBool True, r)"
  "parse_value (Suc n) (''false'' @ r) = Some (JBool False, r)"
  using parse_atom_words [of r]
  by (simp_all add: skip_ws_def is_ws_def)

lemma parse_value_string:
  "parse_value (Suc n) (dump_string s @ r) = Some (JStr s, r)"
  using parse_string_dump [of s r]
  by (auto simp: skip_ws_def is_ws_def)


lemma stop_simps: "stop (CHR '','' # r)" "stop (CHR '']'' # r)" "stop (CHR ''}'' # r)" "stop []"
  by (simp_all add: stop_def)

lemma skip_ws_punct:
  "skip_ws (CHR '','' # r) = CHR '','' # r"
  "skip_ws (CHR '']'' # r) = CHR '']'' # r"
  "skip_ws (CHR ''}'' # r) = CHR ''}'' # r"
  "skip_ws (CHR '':'' # r) = CHR '':'' # r"
  "skip_ws (CHR 0x22 # r) = CHR 0x22 # r"
  by (simp_all add: skip_ws_def is_ws_def)

lemma parse_elems_dump:
  assumes "\<And>x n r. x \<in> set xs \<Longrightarrow> stop r \<Longrightarrow> length (dump_value x) \<le> n \<Longrightarrow>
             parse_value n (dump_value x @ r) = Some (x, r)"
    and "xs \<noteq> []" and "length (dump_elems xs) < n"
  shows "parse_elems n (dump_elems xs @ CHR '']'' # r) = Some (xs, r)"
  using assms
proof (induction xs arbitrary: n)
  case Nil
  then show ?case by simp
next
  case (Cons x xs)
  obtain m where n: "n = Suc m"
    using Cons.prems(3) by (cases n) auto
  show ?case
  proof (cases xs)
    case Nil
    have "parse_value m (dump_value x @ CHR '']'' # r) = Some (x, CHR '']'' # r)"
      using Cons.prems(1) [of x "CHR '']'' # r" m] Cons.prems(3) n Nil
      by (simp add: stop_simps)
    then show ?thesis
      using n Nil by (simp add: skip_ws_punct)
  next
    case (Cons y ys)
    let ?rest = "dump_elems (y # ys) @ CHR '']'' # r"
    have one: "parse_value m (dump_value x @ CHR '','' # ?rest) = Some (x, CHR '','' # ?rest)"
      using Cons.prems(1) [of x "CHR '','' # ?rest" m] Cons.prems(3) n Cons
      by (simp add: stop_simps)
    have more: "parse_elems m ?rest = Some (y # ys, r)"
      using Cons.IH [of m] Cons.prems(1) Cons.prems(3) n Cons by simp
    show ?thesis
      using n Cons one more by (simp add: skip_ws_punct)
  qed
qed

lemma parse_members_dump:
  assumes "\<And>k v n r. (k, v) \<in> set kvs \<Longrightarrow> stop r \<Longrightarrow> length (dump_value v) \<le> n \<Longrightarrow>
             parse_value n (dump_value v @ r) = Some (v, r)"
    and "kvs \<noteq> []" and "length (dump_members kvs) < n"
  shows "parse_members n (dump_members kvs @ CHR ''}'' # r) = Some (kvs, r)"
  using assms
proof (induction kvs arbitrary: n)
  case Nil
  then show ?case by simp
next
  case (Cons kv kvs)
  obtain k v where kv: "kv = (k, v)"
    by (cases kv) auto
  obtain m where n: "n = Suc m"
    using Cons.prems(3) by (cases n) auto
  show ?case
  proof (cases kvs)
    case Nil
    let ?after = "CHR '':'' # dump_value v @ CHR ''}'' # r"
    obtain body where key: "dump_string k @ ?after = CHR 0x22 # body"
        "parse_string body = Some (k, ?after)"
      using parse_string_dump by blast
    have val: "parse_value m (dump_value v @ CHR ''}'' # r) = Some (v, CHR ''}'' # r)"
      using Cons.prems(1) [of k v "CHR ''}'' # r" m] Cons.prems(3) n Nil kv
      by (simp add: stop_simps)
    show ?thesis
      using n Nil kv key val by (simp add: skip_ws_punct)
  next
    case (Cons p ps)
    let ?rest = "dump_members (p # ps) @ CHR ''}'' # r"
    let ?after = "CHR '':'' # dump_value v @ CHR '','' # ?rest"
    obtain body where key: "dump_string k @ ?after = CHR 0x22 # body"
        "parse_string body = Some (k, ?after)"
      using parse_string_dump by blast
    have val: "parse_value m (dump_value v @ CHR '','' # ?rest) = Some (v, CHR '','' # ?rest)"
      using Cons.prems(1) [of k v "CHR '','' # ?rest" m] Cons.prems(3) n Cons kv
      by (simp add: stop_simps)
    have more: "parse_members m ?rest = Some (p # ps, r)"
      unfolding Cons [symmetric]
    proof (rule Cons.IH)
      show "parse_value n' (dump_value v' @ r') = Some (v', r')"
        if "(k', v') \<in> set kvs" "stop r'" "length (dump_value v') \<le> n'" for k' v' n' r'
        using Cons.prems(1) [of k' v' r' n'] that by simp
      show "kvs \<noteq> []"
        using Cons by simp
      show "length (dump_members kvs) < m"
        using Cons.prems(3) n Cons kv by simp
    qed
    show ?thesis
      using n Cons kv key val more by (simp add: skip_ws_punct)
  qed
qed


lemma dump_elems_hd:
  "xs \<noteq> [] \<Longrightarrow> \<exists>c cs. dump_elems xs = c # cs \<and> \<not> is_ws c \<and> c \<noteq> CHR '']''"
proof (cases xs)
  case Nil
  assume "xs \<noteq> []"
  with Nil show ?thesis by simp
next
  case (Cons x ys)
  obtain c cs where "dump_value x = c # cs" "\<not> is_ws c" "c \<noteq> CHR '']''"
    using dump_value_hd by blast
  with Cons show ?thesis
    by (cases ys) auto
qed

lemma dump_members_hd:
  "kvs \<noteq> [] \<Longrightarrow> \<exists>cs. dump_members kvs = CHR 0x22 # cs"
proof (cases kvs)
  case Nil
  assume "kvs \<noteq> []"
  with Nil show ?thesis by simp
next
  case (Cons kv ys)
  then show ?thesis
    by (cases kv; cases ys) (auto simp: dump_string_def)
qed

lemma parse_value_dump:
  "stop r \<Longrightarrow> length (dump_value v) \<le> n \<Longrightarrow> parse_value n (dump_value v @ r) = Some (v, r)"
proof (induction v arbitrary: n r)
  case JNull
  then obtain m where "n = Suc m" by (cases n) auto
  then show ?case using parse_value_word(1) [of m r] by simp
next
  case (JBool b)
  then obtain m where "n = Suc m" by (cases n; cases b) auto
  then show ?case
    using parse_value_word(2) [of m r] parse_value_word(3) [of m r] by (cases b) simp_all
next
  case (JInt i)
  obtain c cs where "dump_int i = c # cs"
    using dump_int_hd by blast
  with JInt obtain m where "n = Suc m" by (cases n) auto
  then show ?case using parse_value_int [OF JInt.prems(1), of m i] by simp
next
  case (JFloat m e)
  obtain c cs where "dump_int m = c # cs"
    using dump_int_hd by blast
  with JFloat obtain k where "n = Suc k" by (cases n) auto
  then show ?case using parse_value_float [OF JFloat.prems(1), of k m e] by simp
next
  case (JStr s)
  then obtain m where "n = Suc m" by (cases n) (auto simp: dump_string_def)
  then show ?case using parse_value_string [of m s r] by simp
next
  case (JArr xs)
  from JArr.prems(2) obtain m where n: "n = Suc m" by (cases n) auto
  show ?case
  proof (cases "xs = []")
    case True
    then show ?thesis
      using n by (simp add: skip_ws_def is_ws_def)
  next
    case False
    obtain c cs where hd: "dump_elems xs = c # cs" "\<not> is_ws c" "c \<noteq> CHR '']''"
      using dump_elems_hd [OF False] by blast
    have "parse_elems m (dump_elems xs @ CHR '']'' # r) = Some (xs, r)"
    proof (rule parse_elems_dump)
      show "parse_value n' (dump_value x @ r') = Some (x, r')"
        if "x \<in> set xs" "stop r'" "length (dump_value x) \<le> n'" for x n' r'
        using JArr.IH that by blast
      show "xs \<noteq> []" by (rule False)
      show "length (dump_elems xs) < m"
        using JArr.prems(2) n by simp
    qed
    then show ?thesis
      using n hd by (simp add: skip_ws_def is_ws_def skip_ws_keep [unfolded skip_ws_def])
  qed
next
  case (JObj kvs)
  from JObj.prems(2) obtain m where n: "n = Suc m" by (cases n) auto
  show ?case
  proof (cases "kvs = []")
    case True
    then show ?thesis
      using n by (simp add: skip_ws_def is_ws_def)
  next
    case False
    obtain cs where hd: "dump_members kvs = CHR 0x22 # cs"
      using dump_members_hd [OF False] by blast
    have "parse_members m (dump_members kvs @ CHR ''}'' # r) = Some (kvs, r)"
    proof (rule parse_members_dump)
      show "parse_value n' (dump_value v @ r') = Some (v, r')"
        if "(k, v) \<in> set kvs" "stop r'" "length (dump_value v) \<le> n'" for k v n' r'
      proof -
        have "v \<in> Basic_BNFs.snds (k, v)" by simp
        with JObj.IH that show ?thesis by blast
      qed
      show "kvs \<noteq> []" by (rule False)
      show "length (dump_members kvs) < m"
        using JObj.prems(2) n by simp
    qed
    then show ?thesis
      using n hd by (simp add: skip_ws_def is_ws_def)
  qed
qed

lemma loads_dump_value: "loads (dump_value v) = Some v"
  using parse_value_dump [of "[]" v "Suc (length (dump_value v))"]
  by (simp add: loads_def stop_simps skip_ws_def)

section \<open>What the operations raise and leave alone\<close>

lemma open_read_exn: "open_read p w = Inl e \<Longrightarrow> \<exists>m. e = OSError m"
  by (auto simp: open_read_def split: option.splits)

lemma open_write_exn: "open_write p c w = Inl e \<Longrightarrow> \<exists>m. e = OSError m"
  by (auto simp: open_write_def split: if_splits)

lemma os_rename_exn: "os_rename a b w = Inl e \<Longrightarrow> \<exists>m. e = OSError m"
  by (auto simp: os_rename_def split: option.splits if_splits)

lemma open_write_frame:
  "open_write p c w = Inr w' \<Longrightarrow> stdout w' = stdout w \<and> unwritable w' = unwritable w"
  by (auto simp: open_write_def split: if_splits)

lemma os_rename_frame:
  "os_rename a b w = Inr w' \<Longrightarrow> stdout w' = stdout w \<and> unwritable w' = unwritable w"
  by (auto simp: os_rename_def split: option.splits if_splits)

lemma rotate_try_exn: "rotate_try J self w = (Some e, w') \<Longrightarrow> \<exists>m. e = OSError m"
  by (auto simp: rotate_try_def Let_def split: sum.splits if_splits
           dest: open_read_exn open_write_exn os_rename_exn)

lemma rotate_try_frame:
  "rotate_try J self w = (r, w') \<Longrightarrow> stdout w' = stdout w \<and> unwritable w' = unwritable w"
  by (auto simp: rotate_try_def Let_def split: sum.splits if_splits
           dest!: open_write_frame os_rename_frame)

lemma u_rotate_file_returns: "fst (u_rotate_file J self w) = None"
proof (cases "rotate_try J self w")
  case (Pair r w')
  then show ?thesis
    by (cases r) (auto simp: u_rotate_file_def dest: rotate_try_exn)
qed

lemma u_rotate_file_frame:
  "stdout (snd (u_rotate_file J self w)) = stdout w
   \<and> unwritable (snd (u_rotate_file J self w)) = unwritable w"
proof (cases "rotate_try J self w")
  case (Pair r w')
  then show ?thesis
    using rotate_try_frame [OF Pair]
    by (cases r) (auto simp: u_rotate_file_def split: exn.splits)
qed

lemma persist_try_frame:
  "persist_try J self rec w = (r, w') \<Longrightarrow> stdout w' = stdout w \<and> unwritable w' = unwritable w"
  by (auto simp: persist_try_def split: sum.splits option.splits json.splits
           dest!: open_write_frame)

lemma persist_try_exn:
  "persist_try J self rec w = (Some e, w') \<Longrightarrow>
   (\<exists>m. e = OSError m) \<or> e = ValueError \<or> e = AttributeError"
  by (auto simp: persist_try_def split: sum.splits option.splits json.splits
           dest: open_read_exn open_write_exn)

lemma persist_stdout:
  "\<exists>notes. stdout (snd (persist J self rec w)) = stdout w @ notes
     \<and> (notes = [] \<or> (\<exists>e. notes = [''Error writing to log file: '' @ e]))"
proof (cases "persist_try J self rec w")
  case (Pair r w')
  note fr = persist_try_frame [OF Pair]
  show ?thesis
  proof (cases r)
    case None
    with Pair fr show ?thesis by (simp add: persist_def)
  next
    case (Some e)
    with Pair fr show ?thesis
      by (cases e)
         (auto simp: persist_def print_line_def split: sum.splits dest!: open_write_frame)
  qed
qed

lemma u_rotate_file_None: "\<exists>w'. u_rotate_file J self w = (None, w')"
  using u_rotate_file_returns [of J self w] by (cases "u_rotate_file J self w") simp

lemma u_log_above:
  assumes "map_of LEVELS level = Some r" and "py_ge r (current_level self)"
  shows "u_log J self now level message w =
     (let w1 = (if log_to_console self
                then print_line (console_message self (u_format_timestamp now) level message) w
                else w)
      in if log_to_file self
         then persist J self (make_log_message self (u_format_timestamp now) level message)
                (snd (u_rotate_file J self w1))
         else (None, w1))"
proof -
  let ?w1 = "if log_to_console self
             then print_line (console_message self (u_format_timestamp now) level message) w
             else w"
  obtain w2 where w2: "u_rotate_file J self ?w1 = (None, w2)"
    using u_rotate_file_None by blast
  show ?thesis
    using assms w2 by (simp add: u_log_def Let_def)
qed

section \<open>Console output\<close>

lemma COLORS_level_name: "\<exists>c. map_of COLORS (level_name L) = Some c"
  by (cases L) (simp_all add: COLORS_def)

lemma console_message_eq:
  "map_of COLORS (level_name L) = Some c \<Longrightarrow>
   console_message self ts (level_name L) message =
     (if use_colors self
      then c @ ''['' @ ts @ '']['' @ level_name L @ ''] '' @ message @ ESC # ''[0m''
      else ''['' @ ts @ '']['' @ level_name L @ ''] '' @ message)"
  by (simp add: console_message_def COLORS_def)

lemma init_no_directory:
  "Logger_init ujson ''info'' False True ''/logs/app.json'' 0 True ''json'' no_directory =
     (Inr file_only_logger,
      no_directory\<lparr>stdout := [''Error initializing log file: [Errno 13] EACCES'']\<rparr>)"
  by (simp add: Logger_init_def file_only_logger_def no_directory_def open_write_def
        print_line_def LEVELS_get_def LEVELS_def upper_def upper_char_def Let_def)

lemma timestamp_noon: "u_format_timestamp noon = ''2024-01-05 09:03:07''"
  by code_simp

text \<open>
  The timestamp of a clock reading in range (a year of at most four digits, the other
  fields of at most two) has the shape \<^verbatim>\<open>YYYY-MM-DD HH:MM:SS\<close>.
\<close>

lemma digits_length: "0 < w \<Longrightarrow> n < 10 ^ w \<Longrightarrow> length (digits n) \<le> w"
proof (induction w arbitrary: n)
  case 0
  then show ?case by simp
next
  case (Suc w)
  show ?case
  proof (cases "n < 10")
    case True
    then show ?thesis by (subst digits.simps) simp
  next
    case False
    with Suc.prems have w: "0 < w"
      by (cases w) auto
    have "n div 10 < 10 ^ w"
      using Suc.prems(2) by (simp add: less_mult_imp_div_less mult.commute)
    from Suc.IH [OF w this] False show ?thesis
      by (subst digits.simps) simp
  qed
qed

lemma fmt_d_shape:
  assumes "0 \<le> n" and "n < 10 ^ w" and "0 < w"
  shows "length (fmt_d w n) = w \<and> (\<forall>c \<in> set (fmt_d w n). is_digit c)"
proof -
  have "nat n < 10 ^ w"
    using assms(1,2) by (simp add: nat_less_iff)
  then have "length (digits (nat n)) \<le> w"
    using digits_length assms(3) by blast
  moreover have "is_digit CHR ''0''"
    by (simp add: is_digit_def)
  ultimately show ?thesis
    using assms(1) digits_all [of _ "nat n"]
    by (auto simp: fmt_d_def zfill_def)
qed

lemma timestamp_shape:
  assumes "0 \<le> tm_year now" "tm_year now < 10000" "0 \<le> tm_mon now" "tm_mon now < 100"
    "0 \<le> tm_mday now" "tm_mday now < 100" "0 \<le> tm_hour now" "tm_hour now < 100"
    "0 \<le> tm_min now" "tm_min now < 100" "0 \<le> tm_sec now" "tm_sec now < 100"
  shows "\<exists>Y M D h m s.
           u_format_timestamp now = Y @ ''-'' @ M @ ''-'' @ D @ '' '' @ h @ '':'' @ m @ '':'' @ s
           \<and> length Y = 4 \<and> length M = 2 \<and> length D = 2
           \<and> length h = 2 \<and> length m = 2 \<and> length s = 2
           \<and> (\<forall>c \<in> set (Y @ M @ D @ h @ m @ s). is_digit c)"
proof -
  have Y: "length (fmt_d 4 (tm_year now)) = 4 \<and> (\<forall>c \<in> set (fmt_d 4 (tm_year now)). is_digit c)"
    using assms(1,2) by (intro fmt_d_shape) simp_all
  have two: "length (fmt_d 2 n) = 2 \<and> (\<forall>c \<in> set (fmt_d 2 n). is_digit c)"
    if "0 \<le> n" "n < 100" for n
    using that by (intro fmt_d_shape) simp_all
  define Y where "Y = fmt_d 4 (tm_year now)"
  define M where "M = fmt_d 2 (tm_mon now)"
  define D where "D = fmt_d 2 (tm_mday now)"
  define h where "h = fmt_d 2 (tm_hour now)"
  define m where "m = fmt_d 2 (tm_min now)"
  define s where "s = fmt_d 2 (tm_sec now)"
  have eq: "u_format_timestamp now = Y @ ''-'' @ M @ ''-'' @ D @ '' '' @ h @ '':'' @ m @ '':'' @ s"
    by (simp only: u_format_timestamp_def Y_def M_def D_def h_def m_def s_def)
  have len: "length Y = 4" "length M = 2" "length D = 2" "length h = 2" "length m = 2"
      "length s = 2"
    using Y two [OF assms(3,4)] two [OF assms(5,6)] two [OF assms(7,8)] two [OF assms(9,10)]
      two [OF assms(11,12)]
    unfolding Y_def M_def D_def h_def m_def s_def by blast+
  have dig: "\<forall>c \<in> set Y. is_digit c" "\<forall>c \<in> set M. is_digit c" "\<forall>c \<in> set D. is_digit c"
      "\<forall>c \<in> set h. is_digit c" "\<forall>c \<in> set m. is_digit c" "\<forall>c \<in> set s. is_digit c"
    using Y two [OF assms(3,4)] two [OF assms(5,6)] two [OF assms(7,8)] two [OF assms(9,10)]
      two [OF assms(11,12)]
    unfolding Y_def M_def D_def h_def m_def s_def by blast+
  have all: "\<forall>c \<in> set (Y @ M @ D @ h @ m @ s). is_digit c"
    using dig by (simp only: set_append Un_iff) blast
  show ?thesis
    using eq len all by blast
qed

text \<open>
  Claim C1, as the code has it. An emit call below the minimum level returns at once and
  leaves the console and the files as they were. At or above it, the call prints the line
  \<^verbatim>\<open>[timestamp][LEVEL] message\<close> exactly when the console sink is enabled, between the
  colour of the level and the reset code exactly when colours are enabled (each of the six
  levels has a colour). The only other thing an emit call can print is one notice
  \<^verbatim>\<open>Error writing to log file: ...\<close>, and only with the file sink enabled.
\<close>

theorem emit_console_output:
  "(if py_ge (rank L) (current_level self) then
      \<exists>c notes.
        map_of COLORS (level_name L) = Some c
        \<and> stdout (snd (emit J self now L message w)) =
            stdout w
            @ (if log_to_console self
               then [if use_colors self
                     then c @ ''['' @ u_format_timestamp now @ '']['' @ level_name L @ ''] ''
                          @ message @ ESC # ''[0m''
                     else ''['' @ u_format_timestamp now @ '']['' @ level_name L @ ''] ''
                          @ message]
               else [])
            @ notes
        \<and> (notes = [] \<or> log_to_file self \<and> (\<exists>e. notes = [''Error writing to log file: '' @ e]))
    else emit J self now L message w = (None, w))"
proof (cases "py_ge (rank L) (current_level self)")
  case False
  then show ?thesis by (simp add: emit_below)
next
  case True
  obtain c where c: "map_of COLORS (level_name L) = Some c"
    using COLORS_level_name by blast
  let ?line = "console_message self (u_format_timestamp now) (level_name L) message"
  let ?w1 = "if log_to_console self then print_line ?line w else w"
  let ?rec = "make_log_message self (u_format_timestamp now) (level_name L) message"
  have eq: "emit J self now L message w =
      (if log_to_file self then persist J self ?rec (snd (u_rotate_file J self ?w1))
       else (None, ?w1))"
    using True by (simp add: emit_u_log u_log_above [OF LEVELS_level_name] Let_def)
  have w1: "stdout ?w1 = stdout w @ (if log_to_console self then [?line] else [])"
    by (simp add: print_line_def)
  show ?thesis
  proof (cases "log_to_file self")
    case False
    with eq w1 c True show ?thesis
      by (simp add: console_message_eq [OF c])
  next
    case tofile: True
    obtain extra where n:
      "stdout (snd (persist J self ?rec (snd (u_rotate_file J self ?w1)))) =
         stdout (snd (u_rotate_file J self ?w1)) @ extra"
      "extra = [] \<or> (\<exists>e. extra = [''Error writing to log file: '' @ e])"
      using persist_stdout by blast
    have "stdout (snd (emit J self now L message w)) =
            stdout w @ (if log_to_console self then [?line] else []) @ extra"
      using eq tofile n(1) w1 u_rotate_file_frame [of J self ?w1] by simp
    with n(2) c True tofile show ?thesis
      by (simp add: console_message_eq [OF c])
  qed
qed

text \<open>
  The claim says more: that an emit call produces console output if and only if the
  console sink is enabled and the level passes. A logger with the console sink disabled
  whose log file could not be created (the constructor reported it and went on) prints
  the notice of line 119 at every emit call.
\<close>

theorem console_output_iff_counterexample:
  "\<not> (stdout (snd (emit ujson file_only_logger noon INFO ''boot'' no_directory))
          \<noteq> stdout no_directory
        \<longleftrightarrow> log_to_console file_only_logger
              \<and> py_ge (rank INFO) (current_level file_only_logger))"
  by (simp add: info_def u_log_def LEVELS_def file_only_logger_def no_directory_def
        u_rotate_file_def persist_def persist_try_def open_read_def print_line_def Let_def)

theorem emit_console_output_witness:
  "stdout (snd (emit ujson console_logger noon ERROR ''boom'' blank_world)) =
     [ESC # ''[91m[2024-01-05 09:03:07][ERROR] boom'' @ ESC # ''[0m'']
   \<and> emit ujson console_logger noon INFO ''hello'' blank_world = (None, blank_world)"
proof -
  have hi: "py_ge (rank ERROR) (current_level console_logger)"
    by (simp add: console_logger_def)
  have lo: "\<not> py_ge (rank INFO) (current_level console_logger)"
    by (simp add: console_logger_def)
  have col: "map_of COLORS (level_name ERROR) = Some (ESC # ''[91m'')"
    by (simp add: COLORS_def)
  show ?thesis
    using emit_console_output [of ERROR console_logger ujson noon "''boom''" blank_world]
      emit_console_output [of INFO console_logger ujson noon "''hello''" blank_world]
      hi lo col
    by (simp add: timestamp_noon console_logger_def blank_world_def)
qed

section \<open>Disabling the logger\<close>

text \<open>
  Claim C8. \<^verbatim>\<open>disable\<close> sets the minimum level to a value that compares greater than the
  rank of each of the six levels, and changes no other attribute. On the disabled logger
  every emit call, at every level and in every world, returns normally and leaves the
  console and the files as they were, and so does every sequence of emit calls;
  \<^verbatim>\<open>set_level\<close> puts an integer rank back.
\<close>

theorem disable_silences_every_emit:
  "current_level (disable self) = PyInf
   \<and> (\<forall>L. py_gt (current_level (disable self)) (PyInt (rank L)))
   \<and> log_to_console (disable self) = log_to_console self
   \<and> log_to_file (disable self) = log_to_file self
   \<and> file_name (disable self) = file_name self
   \<and> max_file_size (disable self) = max_file_size self
   \<and> use_colors (disable self) = use_colors self
   \<and> log_format (disable self) = log_format self
   \<and> (\<forall>now L message w. emit J (disable self) now L message w = (None, w))
   \<and> (\<forall>calls w. emit_all J (disable self) calls w = (None, w))
   \<and> (\<forall>name. \<exists>r. current_level (set_level (disable self) name) = PyInt r)"
proof -
  have off: "\<And>L. \<not> py_ge (rank L) (current_level (disable self))"
    by (simp add: disable_def)
  have one: "\<forall>now L message w. emit J (disable self) now L message w = (None, w)"
    using off by (simp add: emit_below)
  have many: "\<forall>calls w. emit_all J (disable self) calls w = (None, w)"
    using off by (simp add: emit_all_silent)
  show ?thesis
    using one many by (simp add: disable_def set_level_def)
qed

section \<open>Rotation\<close>

lemma u_rotate_file_off: "max_file_size self \<le> 0 \<Longrightarrow> u_rotate_file J self w = (None, w)"
  by (simp add: u_rotate_file_def)

lemma u_rotate_file_small:
  "files w (file_name self) = Some c \<Longrightarrow> int (length c) \<le> max_file_size self \<Longrightarrow>
   u_rotate_file J self w = (None, w)"
  by (simp add: u_rotate_file_def rotate_try_def open_read_def)

lemma u_rotate_file_rotates:
  "0 < max_file_size self \<Longrightarrow> files w (file_name self) = Some c \<Longrightarrow>
   max_file_size self < int (length c) \<Longrightarrow> file_name self \<notin> unwritable w \<Longrightarrow>
   file_name self @ ''.old'' \<notin> unwritable w \<Longrightarrow>
   u_rotate_file J self w =
     (None, w\<lparr>files := (files w)(file_name self @ ''.old'' \<mapsto> c,
                                  file_name self \<mapsto> fresh_content J self)\<rparr>)"
  by (simp add: u_rotate_file_def rotate_try_def open_read_def os_rename_def open_write_def
        fun_upd_twist)

text \<open>
  Claim C4. An emit call at or above the minimum level with the file sink enabled appends
  its record to the file as \<^verbatim>\<open>_rotate_file\<close> left it: the rotation check comes first.
  \<^verbatim>\<open>_rotate_file\<close> never raises, whatever the files are, so the append is always reached.
  With a maximum of 0 (or less) it does nothing, and it does nothing to a file within the
  maximum. A file longer than a positive maximum, where renaming and writing are possible,
  is moved to \<^verbatim>\<open><path>.old\<close>, replacing what was there, and the path gets a fresh file: the
  empty JSON array with format \<^verbatim>\<open>json\<close>, the line \<^verbatim>\<open>Log rotated.\<close> otherwise.
\<close>

theorem rotation_precedes_append:
  assumes "py_ge (rank L) (current_level self)" and "log_to_file self"
  shows "emit J self now L message w =
           persist J self (make_log_message self (u_format_timestamp now) (level_name L) message)
             (snd (u_rotate_file J self
                (if log_to_console self
                 then print_line
                        (console_message self (u_format_timestamp now) (level_name L) message) w
                 else w)))
         \<and> fst (u_rotate_file J self v) = None
         \<and> (max_file_size self \<le> 0 \<longrightarrow> u_rotate_file J self v = (None, v))
         \<and> (\<forall>c. files v (file_name self) = Some c \<and> int (length c) \<le> max_file_size self
                \<longrightarrow> u_rotate_file J self v = (None, v))
         \<and> (\<forall>c. 0 < max_file_size self \<and> files v (file_name self) = Some c
                \<and> max_file_size self < int (length c)
                \<and> file_name self \<notin> unwritable v \<and> file_name self @ ''.old'' \<notin> unwritable v
                \<longrightarrow> u_rotate_file J self v =
                     (None, v\<lparr>files := (files v)
                        (file_name self @ ''.old'' \<mapsto> c,
                         file_name self \<mapsto>
                           (if log_format self = ''json'' then ujson_dump J (JArr [])
                            else ''Log rotated.'' @ [NL]))\<rparr>))"
proof -
  have "emit J self now L message w =
           persist J self (make_log_message self (u_format_timestamp now) (level_name L) message)
             (snd (u_rotate_file J self
                (if log_to_console self
                 then print_line
                        (console_message self (u_format_timestamp now) (level_name L) message) w
                 else w)))"
    using assms by (simp add: emit_u_log u_log_above [OF LEVELS_level_name] Let_def)
  then show ?thesis
    using u_rotate_file_rotates [of self v _ J]
    by (simp add: u_rotate_file_returns u_rotate_file_off u_rotate_file_small fresh_content_def)
qed

lemma loads_empty_array: "loads ''[]'' = Some (JArr [])"
  by code_simp

lemma old_entries_size: "int (length old_entries) = 34"
  unfolding old_entries_def by code_simp

theorem rotation_precedes_append_witness:
  "py_ge (rank INFO) (current_level rotating_logger) \<and> log_to_file rotating_logger
   \<and> fst (emit ujson rotating_logger noon INFO ''new'' full_world) = None
   \<and> files (snd (emit ujson rotating_logger noon INFO ''new'' full_world)) ''app.json.old''
       = Some old_entries
   \<and> files (snd (emit ujson rotating_logger noon INFO ''new'' full_world)) ''app.json''
       = Some (dump_value (JArr [JObj [(''timestamp'', JStr ''2024-01-05 09:03:07''),
            (''level'', JStr ''INFO''), (''message'', JStr ''new'')]]))"
proof -
  have a: "py_ge (rank INFO) (current_level rotating_logger)"
    by (simp add: rotating_logger_def)
  have b: "log_to_file rotating_logger"
    by (simp add: rotating_logger_def)
  have rot: "u_rotate_file ujson rotating_logger full_world =
      (None, full_world\<lparr>files := (files full_world)
          (''app.json.old'' \<mapsto> old_entries, ''app.json'' \<mapsto> ''[]'')\<rparr>)"
    using rotation_precedes_append [OF a b, of ujson noon "''new''" full_world full_world]
      old_entries_size
    by (simp add: rotating_logger_def full_world_def ujson_def)
  show ?thesis
    using rotation_precedes_append [OF a b, of ujson noon "''new''" full_world full_world]
      a b rot
    by (simp add: rotating_logger_def full_world_def ujson_def persist_def persist_try_def
          open_read_def open_write_def loads_empty_array make_log_message_def COLORS_def
          timestamp_noon)
qed

section \<open>Recovery from a file that is not JSON\<close>

lemma persist_recovers:
  "files w (file_name self) = Some c \<Longrightarrow> ujson_load J c = None \<Longrightarrow>
   file_name self \<notin> unwritable w \<Longrightarrow>
   persist J self entry w =
     (None, w\<lparr>files := (files w)(file_name self \<mapsto> ujson_dump J (JArr [JObj entry]))\<rparr>)"
  by (simp add: persist_def persist_try_def open_read_def open_write_def)

text \<open>
  Take an emit call at or above the minimum level with the file sink enabled, and the
  file as the call reads it, that is, as the rotation check left it. If the file is there,
  its content does not parse (\<^verbatim>\<open>ujson.load\<close> raises \<^verbatim>\<open>ValueError\<close>) and the file can be
  opened for writing, then the call returns normally, prints nothing beyond its console
  line, and the file holds the JSON array of the new record alone.
\<close>

lemma corrupt_file_recovery:
  assumes "py_ge (rank L) (current_level self)" and "log_to_file self"
    and "w1 = snd (u_rotate_file J self
                (if log_to_console self
                 then print_line
                        (console_message self (u_format_timestamp now) (level_name L) message) w
                 else w))"
    and "files w1 (file_name self) = Some c" and "ujson_load J c = None"
    and "file_name self \<notin> unwritable w1"
  shows "emit J self now L message w =
           (None, w1\<lparr>files := (files w1)(file_name self \<mapsto>
              ujson_dump J (JArr [JObj (make_log_message self (u_format_timestamp now)
                                          (level_name L) message)]))\<rparr>)"
  using assms
  by (simp add: emit_u_log u_log_above [OF LEVELS_level_name] Let_def persist_recovers)

lemma loads_garbled: "loads ''[{oops'' = None"
  by code_simp

lemma corrupt_file_recovery_run:
  "py_ge (rank ERROR) (current_level plain_logger) \<and> log_to_file plain_logger
   \<and> files garbled_world (file_name plain_logger) = Some ''[{oops''
   \<and> ujson_load ujson ''[{oops'' = None
   \<and> file_name plain_logger \<notin> unwritable garbled_world
   \<and> fst (emit ujson plain_logger noon ERROR ''disk'' garbled_world) = None
   \<and> files (snd (emit ujson plain_logger noon ERROR ''disk'' garbled_world)) ''app.json'' =
       Some (dump_value (JArr [JObj [(''timestamp'', JStr ''2024-01-05 09:03:07''),
            (''level'', JStr ''ERROR''), (''message'', JStr ''disk'')]]))"
proof -
  have a: "py_ge (rank ERROR) (current_level plain_logger)"
    by (simp add: plain_logger_def)
  have b: "log_to_file plain_logger"
    by (simp add: plain_logger_def)
  have c: "garbled_world = snd (u_rotate_file ujson plain_logger
                (if log_to_console plain_logger
                 then print_line
                        (console_message plain_logger (u_format_timestamp noon)
                           (level_name ERROR) ''disk'') garbled_world
                 else garbled_world))"
    by (simp add: plain_logger_def u_rotate_file_def)
  have d: "files garbled_world (file_name plain_logger) = Some ''[{oops''"
    by (simp add: plain_logger_def garbled_world_def)
  have e: "ujson_load ujson ''[{oops'' = None"
    by (simp add: ujson_def loads_garbled)
  have f: "file_name plain_logger \<notin> unwritable garbled_world"
    by (simp add: plain_logger_def garbled_world_def)
  show ?thesis
    using corrupt_file_recovery [OF a b c d e f] a b d e f
    by (simp add: plain_logger_def garbled_world_def ujson_def make_log_message_def COLORS_def
          timestamp_noon)
qed

text \<open>
  Claim C5 says that whenever the content read does not parse, the emit call succeeds
  without an error reaching the caller and leaves the one-element array in the file. That
  is what the handler of lines 120-123 does when it can open the file for writing. When
  it cannot, the \<^verbatim>\<open>OSError\<close> of its \<^verbatim>\<open>open\<close> (line 122) is raised inside the handler, where
  no \<^verbatim>\<open>except\<close> clause applies: the error reaches the caller and the file keeps its content.
\<close>

theorem corrupt_read_only_raises:
  "files read_only_world (file_name plain_logger) = Some ''[{oops''
   \<and> ujson_load ujson ''[{oops'' = None
   \<and> emit ujson plain_logger noon ERROR ''disk'' read_only_world =
       (Some (OSError ''[Errno 13] EACCES''), read_only_world)"
  by (simp add: plain_logger_def read_only_world_def open_write_def open_read_def
        LEVELS_def COLORS_def Let_def error_def u_log_def u_rotate_file_def persist_def
        persist_try_def ujson_def loads_garbled make_log_message_def)

section \<open>The file step and the format\<close>

lemma persist_try_format:
  "persist_try J (self\<lparr>log_format := f\<rparr>) entry w = persist_try J self entry w"
  by (simp add: persist_try_def cong: sum.case_cong option.case_cong json.case_cong)

lemma persist_format: "persist J (self\<lparr>log_format := f\<rparr>) entry w = persist J self entry w"
  by (simp add: persist_def persist_try_format
        cong: prod.case_cong option.case_cong exn.case_cong)

lemma make_log_message_format:
  "make_log_message (self\<lparr>log_format := f\<rparr>) ts level message =
   make_log_message self ts level message"
  by (simp add: make_log_message_def cong: option.case_cong)

lemma console_message_format:
  "console_message (self\<lparr>log_format := f\<rparr>) ts level message =
   console_message self ts level message"
  by (simp add: console_message_def Let_def cong: option.case_cong)

lemma emit_unfold:
  "emit J self now L message w =
     (if py_ge (rank L) (current_level self) then
        (let w1 = (if log_to_console self
                   then print_line
                          (console_message self (u_format_timestamp now) (level_name L) message) w
                   else w)
         in if log_to_file self
            then persist J self
                   (make_log_message self (u_format_timestamp now) (level_name L) message)
                   (snd (u_rotate_file J self w1))
            else (None, w1))
      else (None, w))"
  by (simp add: emit_u_log u_log_below [OF LEVELS_level_name]
        u_log_above [OF LEVELS_level_name])

lemma u_rotate_file_idle:
  "max_file_size self \<le> 0
   \<or> (\<exists>c. files w (file_name self) = Some c \<and> int (length c) \<le> max_file_size self) \<Longrightarrow>
   u_rotate_file J self w = (None, w)"
  by (auto simp: u_rotate_file_off u_rotate_file_small)

lemma files_print_line: "files (print_line s w) = files w"
  by (simp add: print_line_def)

text \<open>
  Claim C10. The step of \<^verbatim>\<open>_log\<close> that reads the file as a JSON array, appends the record
  and rewrites the array, with its recovery from content that does not parse, does not
  look at \<^verbatim>\<open>log_format\<close>: on a logger with the format replaced by any other it does the same
  to every world. In a whole emit call the format reaches only \<^verbatim>\<open>_rotate_file\<close>, so two
  loggers that differ in the format alone do the same whenever rotation is off or the
  file is within the maximum.
\<close>

theorem file_step_ignores_format:
  "persist J (self\<lparr>log_format := f\<rparr>) entry w = persist J self entry w
   \<and> emit J (self\<lparr>log_format := f\<rparr>) now L message w =
       (if py_ge (rank L) (current_level self) then
          (let w1 = (if log_to_console self
                     then print_line
                            (console_message self (u_format_timestamp now) (level_name L) message) w
                     else w)
           in if log_to_file self
              then persist J self
                     (make_log_message self (u_format_timestamp now) (level_name L) message)
                     (snd (u_rotate_file J (self\<lparr>log_format := f\<rparr>) w1))
              else (None, w1))
        else (None, w))
   \<and> (max_file_size self \<le> 0
        \<or> (\<exists>c. files w (file_name self) = Some c \<and> int (length c) \<le> max_file_size self)
      \<longrightarrow> emit J (self\<lparr>log_format := f\<rparr>) now L message w = emit J self now L message w)"
proof -
  have one: "emit J (self\<lparr>log_format := f\<rparr>) now L message w =
       (if py_ge (rank L) (current_level self) then
          (let w1 = (if log_to_console self
                     then print_line
                            (console_message self (u_format_timestamp now) (level_name L) message) w
                     else w)
           in if log_to_file self
              then persist J self
                     (make_log_message self (u_format_timestamp now) (level_name L) message)
                     (snd (u_rotate_file J (self\<lparr>log_format := f\<rparr>) w1))
              else (None, w1))
        else (None, w))"
    by (simp add: emit_unfold [of J "self\<lparr>log_format := f\<rparr>"] persist_format
          make_log_message_format console_message_format)
  have two: "emit J (self\<lparr>log_format := f\<rparr>) now L message w = emit J self now L message w"
    if idle: "max_file_size self \<le> 0
        \<or> (\<exists>c. files w (file_name self) = Some c \<and> int (length c) \<le> max_file_size self)"
  proof -
    have "u_rotate_file J self v = (None, v)
          \<and> u_rotate_file J (self\<lparr>log_format := f\<rparr>) v = (None, v)"
      if "files v = files w" for v
      using idle that u_rotate_file_idle [of self v J]
        u_rotate_file_idle [of "self\<lparr>log_format := f\<rparr>" v J]
      by simp
    then show ?thesis
      by (simp add: one emit_unfold [of J self] files_print_line Let_def)
  qed
  show ?thesis
    using one two by (simp add: persist_format)
qed

theorem file_step_ignores_format_witness:
  "max_file_size plain_logger \<le> 0
   \<and> log_format plain_logger = ''json''
   \<and> emit ujson (plain_logger\<lparr>log_format := ''text''\<rparr>) noon ERROR ''disk'' garbled_world =
       emit ujson plain_logger noon ERROR ''disk'' garbled_world"
proof -
  have off: "max_file_size plain_logger \<le> 0"
    by (simp add: plain_logger_def)
  have fmt: "log_format plain_logger = ''json''"
    by (simp add: plain_logger_def)
  show ?thesis
    using file_step_ignores_format [where J = ujson and self = plain_logger and f = "''text''"
        and w = garbled_world and now = noon and L = ERROR and message = "''disk''",
        THEN conjunct2, THEN conjunct2] off fmt
    by blast
qed

section \<open>Runs of the JSON library\<close>

lemma loads_marker: "loads (''Logger initialized.'' @ [NL]) = None"
  by code_simp

lemma loads_empty_object: "loads ''{}'' = Some (JObj [])"
  by code_simp

section \<open>Construction when the file cannot be created\<close>

text \<open>
  Claim C7 says that a failure to create the log file during construction is reported and
  is not fatal, for both formats. With format \<^verbatim>\<open>json\<close> it is so: the constructor prints
  \<^verbatim>\<open>Error initializing log file: ...\<close> and returns the logger. With format \<^verbatim>\<open>text\<close> the
  \<^verbatim>\<open>open\<close> of line 55 is outside any \<^verbatim>\<open>try\<close>: the \<^verbatim>\<open>OSError\<close> leaves the constructor, nothing
  is printed and no logger is built.
\<close>

theorem init_text_raises:
  "Logger_init ujson ''INFO'' True True ''/logs/app.json'' 0 True ''text'' no_directory =
     (Inl (OSError ''[Errno 13] EACCES''), no_directory)
   \<and> fst (Logger_init ujson ''INFO'' True True ''/logs/app.json'' 0 True ''json'' no_directory) =
       Inr \<lparr>current_level = PyInt 1, log_to_console = True, log_to_file = True,
            file_name = ''/logs/app.json'', max_file_size = 0, use_colors = True,
            log_format = ''json''\<rparr>
   \<and> stdout (snd (Logger_init ujson ''INFO'' True True ''/logs/app.json'' 0 True ''json''
         no_directory)) = [''Error initializing log file: [Errno 13] EACCES'']"
  by (simp add: Logger_init_def no_directory_def open_write_def print_line_def
        LEVELS_get_def LEVELS_def upper_def upper_char_def Let_def)

section \<open>The text format\<close>

text \<open>
  Claim C3 says that with format \<^verbatim>\<open>text\<close> the file is a sequence of lines to which each
  emit call appends, the marker lines staying in place. The constructor writes the line
  \<^verbatim>\<open>Logger initialized.\<close>, but \<^verbatim>\<open>_log\<close> has no branch on the format: it reads the file as
  JSON, the marker line does not parse, and the handler of lines 120-123 replaces the
  whole file by a JSON array holding the new record. The marker line is gone after the
  first emit call.
\<close>

theorem text_emit_replaces_marker:
  "Logger_init ujson ''INFO'' True True ''app.log'' 0 False ''text'' blank_world =
     (Inr text_logger, blank_world\<lparr>files := [''app.log'' \<mapsto> ''Logger initialized.'' @ [NL]]\<rparr>)
   \<and> emit ujson text_logger noon INFO ''started''
       (blank_world\<lparr>files := [''app.log'' \<mapsto> ''Logger initialized.'' @ [NL]]\<rparr>) =
     (None,
      \<lparr>files = [''app.log'' \<mapsto>
          dump_value (JArr [JObj [(''timestamp'', JStr ''2024-01-05 09:03:07''),
            (''level'', JStr ''INFO''), (''message'', JStr ''started'')]])],
       unwritable = {}, stdout = [''[2024-01-05 09:03:07][INFO] started'']\<rparr>)"
  by (simp add: Logger_init_def text_logger_def blank_world_def open_write_def open_read_def
        print_line_def LEVELS_get_def LEVELS_def COLORS_def upper_def upper_char_def Let_def
        info_def u_log_def u_rotate_file_def persist_def persist_try_def ujson_def
        loads_marker [simplified] make_log_message_def console_message_def timestamp_noon)

section \<open>Exceptions that leave an emit call\<close>

text \<open>
  Claim C6 says that no emit call raises. Two paths of \<^verbatim>\<open>_log\<close> do. When the file holds
  JSON that is not an array, \<^verbatim>\<open>ujson.load\<close> returns a value without \<^verbatim>\<open>append\<close>, and the
  \<^verbatim>\<open>AttributeError\<close> of line 114 matches neither handler. When the file holds text that is
  not JSON and cannot be opened for writing, the \<^verbatim>\<open>open\<close> of line 122 raises \<^verbatim>\<open>OSError\<close>
  inside the \<^verbatim>\<open>ValueError\<close> handler, where nothing catches it. In both the console line
  has been printed before.
\<close>

theorem emit_raises:
  "emit ujson console_file_logger noon ERROR ''disk'' object_world =
     (Some AttributeError, object_world\<lparr>stdout := [''[2024-01-05 09:03:07][ERROR] disk'']\<rparr>)
   \<and> emit ujson console_file_logger noon ERROR ''disk'' read_only_world =
     (Some (OSError ''[Errno 13] EACCES''),
      read_only_world\<lparr>stdout := [''[2024-01-05 09:03:07][ERROR] disk'']\<rparr>)"
  by (simp add: console_file_logger_def object_world_def read_only_world_def open_write_def
        open_read_def print_line_def LEVELS_def COLORS_def Let_def
        error_def u_log_def u_rotate_file_def persist_def persist_try_def ujson_def
        loads_empty_object loads_garbled make_log_message_def console_message_def timestamp_noon)

section \<open>The JSON file is an array\<close>

lemma array_or_kept_refl: "array_or_kept J a a"
  by (simp add: array_or_kept_def)

lemma array_or_kept_trans:
  "array_or_kept J a b \<Longrightarrow> array_or_kept J b c \<Longrightarrow> array_or_kept J a c"
  by (auto simp: array_or_kept_def)

lemma rotate_array:
  "log_format self = ''json'' \<Longrightarrow>
   files (snd (u_rotate_file J self w)) (file_name self) = files w (file_name self)
   \<or> files (snd (u_rotate_file J self w)) (file_name self) = Some (ujson_dump J (JArr []))"
  by (auto simp: u_rotate_file_def rotate_try_def open_read_def os_rename_def open_write_def
        fresh_content_def Let_def split: option.splits if_splits)

lemma persist_array:
  "array_or_kept J (files w (file_name self)) (files (snd (persist J self entry w)) (file_name self))"
  by (auto simp: array_or_kept_def persist_def persist_try_def open_read_def open_write_def
        print_line_def split: option.splits json.splits if_splits)

lemma emit_array:
  assumes "log_format self = ''json''"
  shows "array_or_kept J (files w (file_name self))
           (files (snd (emit J self now L message w)) (file_name self))"
proof -
  let ?w1 = "if log_to_console self
             then print_line (console_message self (u_format_timestamp now) (level_name L) message) w
             else w"
  have "array_or_kept J (files w (file_name self))
          (files (snd (u_rotate_file J self ?w1)) (file_name self))"
    using rotate_array [OF assms, of J ?w1]
    by (auto simp: array_or_kept_def files_print_line)
  then have "array_or_kept J (files w (file_name self))
          (files (snd (persist J self
              (make_log_message self (u_format_timestamp now) (level_name L) message)
              (snd (u_rotate_file J self ?w1)))) (file_name self))"
    using persist_array array_or_kept_trans by blast
  then show ?thesis
    by (simp add: emit_unfold [of J self] Let_def array_or_kept_refl files_print_line)
qed

lemma emit_all_array:
  assumes "log_format self = ''json''"
  shows "array_or_kept J (files w (file_name self))
           (files (snd (emit_all J self calls w)) (file_name self))"
proof (induction calls arbitrary: w)
  case Nil
  show ?case by (simp add: array_or_kept_refl)
next
  case (Cons call calls)
  obtain now L message where call: "call = (now, L, message)"
    by (cases call) auto
  obtain r w' where step: "emit J self now L message w = (r, w')"
    by (cases "emit J self now L message w") auto
  have one: "array_or_kept J (files w (file_name self)) (files w' (file_name self))"
    using emit_array [OF assms, of J w now L message] step by simp
  show ?case
  proof (cases r)
    case None
    with call step one Cons.IH [of w'] show ?thesis
      by (auto intro: array_or_kept_trans)
  next
    case (Some e)
    with call step one show ?thesis by simp
  qed
qed

lemma init_json_file:
  "files (snd (Logger_init J level tc True fname mx col ''json'' w)) fname =
     (if fname \<in> unwritable w then files w fname else Some (ujson_dump J (JArr [])))"
  by (simp add: Logger_init_def open_write_def print_line_def)

text \<open>
  Claim C9. With format \<^verbatim>\<open>json\<close>, every write to the log file writes a JSON array. The
  constructor leaves the empty array in the file when it can open it, and the file as it
  was when it cannot. \<^verbatim>\<open>_rotate_file\<close> leaves the file as it was or holding the empty array.
  An emit call, and so every sequence of emit calls, leaves the file as it was or holding
  the text \<^verbatim>\<open>ujson.dump\<close> writes for a list: the list read with the record appended, or the
  record alone after content that did not parse. With a library that reads back as a list
  what it writes for a list, the file each of them has written reads as a list, never as
  an object or a scalar.
\<close>

theorem json_file_stays_array:
  assumes "log_format self = ''json''"
  shows "files (snd (Logger_init J level tc True fname mx col ''json'' v)) fname =
           (if fname \<in> unwritable v then files v fname else Some (ujson_dump J (JArr [])))
         \<and> (files (snd (u_rotate_file J self w)) (file_name self) = files w (file_name self)
              \<or> files (snd (u_rotate_file J self w)) (file_name self) =
                   Some (ujson_dump J (JArr [])))
         \<and> array_or_kept J (files w (file_name self))
              (files (snd (emit J self now L message w)) (file_name self))
         \<and> array_or_kept J (files w (file_name self))
              (files (snd (emit_all J self calls w)) (file_name self))
         \<and> (reads_arrays J \<longrightarrow>
               (fname \<notin> unwritable v \<longrightarrow>
                  holds_array J (files (snd (Logger_init J level tc True fname mx col ''json'' v))
                                   fname))
               \<and> (files (snd (u_rotate_file J self w)) (file_name self) = files w (file_name self)
                    \<or> holds_array J (files (snd (u_rotate_file J self w)) (file_name self)))
               \<and> (files (snd (emit J self now L message w)) (file_name self)
                      = files w (file_name self)
                    \<or> holds_array J (files (snd (emit J self now L message w)) (file_name self)))
               \<and> (files (snd (emit_all J self calls w)) (file_name self)
                      = files w (file_name self)
                    \<or> holds_array J (files (snd (emit_all J self calls w)) (file_name self))))"
proof -
  have kept: "f = g \<or> holds_array J f" if "reads_arrays J" "array_or_kept J g f" for f g
    using that by (auto simp: reads_arrays_def array_or_kept_def holds_array_def)
  have rot: "array_or_kept J (files w (file_name self))
               (files (snd (u_rotate_file J self w)) (file_name self))"
    using rotate_array [OF assms, of J w] by (auto simp: array_or_kept_def)
  have init: "holds_array J (files (snd (Logger_init J level tc True fname mx col ''json'' v)) fname)"
    if "reads_arrays J" "fname \<notin> unwritable v"
    using that by (simp add: init_json_file holds_array_def reads_arrays_def)
  show ?thesis
    using rotate_array [OF assms, of J w] emit_array [OF assms, of J w now L message]
      emit_all_array [OF assms, of J w calls] init
      kept [OF _ rot] kept [OF _ emit_array [OF assms, of J w now L message]]
      kept [OF _ emit_all_array [OF assms, of J w calls]]
    by (simp add: init_json_file)
qed

theorem json_file_stays_array_witness:
  "log_format plain_logger = ''json'' \<and> reads_arrays ujson
   \<and> ''app.json'' \<notin> unwritable garbled_world
   \<and> files (snd (Logger_init ujson ''INFO'' False True ''app.json'' 0 False ''json''
         garbled_world)) ''app.json'' = Some ''[]''
   \<and> holds_array ujson
        (files (snd (Logger_init ujson ''INFO'' False True ''app.json'' 0 False ''json''
           garbled_world)) ''app.json'')
   \<and> array_or_kept ujson (files garbled_world ''app.json'')
        (files (snd (emit ujson plain_logger noon ERROR ''disk'' garbled_world)) ''app.json'')"
proof -
  have fmt: "log_format plain_logger = ''json''"
    by (simp add: plain_logger_def)
  have name: "file_name plain_logger = ''app.json''"
    by (simp add: plain_logger_def)
  have lib: "reads_arrays ujson"
    by (simp add: reads_arrays_def ujson_def loads_dump_value del: dump_value.simps)
  have io: "''app.json'' \<notin> unwritable garbled_world"
    by (simp add: garbled_world_def)
  note all = json_file_stays_array [OF fmt, where J = ujson and level = "''INFO''"
      and tc = False and fname = "''app.json''" and mx = 0 and col = False
      and v = garbled_world and w = garbled_world and now = noon and L = ERROR
      and message = "''disk''"]
  have written: "files (snd (Logger_init ujson ''INFO'' False True ''app.json'' 0 False ''json''
         garbled_world)) ''app.json'' = Some ''[]''"
    using all [THEN conjunct1] io by (simp add: ujson_def)
  have reads: "holds_array ujson
        (files (snd (Logger_init ujson ''INFO'' False True ''app.json'' 0 False ''json''
           garbled_world)) ''app.json'')"
    using all [THEN conjunct2, THEN conjunct2, THEN conjunct2, THEN conjunct2] lib io by blast
  have kept: "array_or_kept ujson (files garbled_world ''app.json'')
        (files (snd (emit ujson plain_logger noon ERROR ''disk'' garbled_world)) ''app.json'')"
    using all [THEN conjunct2, THEN conjunct2, THEN conjunct1] by (simp only: name)
  show ?thesis
    using fmt lib io written reads kept by blast
qed

section \<open>Reading back the JSON file\<close>

lemma persist_appends:
  "files w (file_name self) = Some c \<Longrightarrow> ujson_load J c = Some (JArr logs) \<Longrightarrow>
   file_name self \<notin> unwritable w \<Longrightarrow>
   persist J self entry w =
     (None, w\<lparr>files := (files w)(file_name self \<mapsto> ujson_dump J (JArr (logs @ [JObj entry])))\<rparr>)"
  by (simp add: persist_def persist_try_def open_read_def open_write_def)

lemma emit_appends:
  assumes "py_ge (rank L) (current_level self)" and "log_to_file self"
    and "files w (file_name self) = Some c" and "ujson_load J c = Some (JArr logs)"
    and "file_name self \<notin> unwritable w"
    and "max_file_size self \<le> 0 \<or> int (length c) \<le> max_file_size self"
  shows "\<exists>w'. emit J self now L message w = (None, w')
           \<and> files w' (file_name self) =
               Some (ujson_dump J (JArr (logs @ [entry_of self (now, L, message)])))
           \<and> unwritable w' = unwritable w"
proof -
  let ?w1 = "if log_to_console self
             then print_line (console_message self (u_format_timestamp now) (level_name L) message) w
             else w"
  have w1: "files ?w1 = files w" "unwritable ?w1 = unwritable w"
    by (simp_all add: print_line_def)
  have "u_rotate_file J self ?w1 = (None, ?w1)"
    using assms(3,6) w1 u_rotate_file_idle [of self ?w1 J] by auto
  then show ?thesis
    using assms(1-5) w1
    by (simp add: emit_unfold [of J self] Let_def persist_appends entry_of_def)
qed

lemma emit_all_appends:
  assumes "log_to_file self" and "file_name self \<notin> unwritable w"
    and "\<forall>call \<in> set calls. py_ge (rank (fst (snd call))) (current_level self)"
    and "files w (file_name self) = Some (ujson_dump J (JArr xs))"
    and "\<forall>k < length calls.
           max_file_size self \<le> 0
           \<or> int (length (ujson_dump J (JArr (xs @ map (entry_of self) (take k calls)))))
               \<le> max_file_size self"
    and "\<forall>k < length calls.
           ujson_load J (ujson_dump J (JArr (xs @ map (entry_of self) (take k calls)))) =
             Some (JArr (xs @ map (entry_of self) (take k calls)))"
  shows "\<exists>w'. emit_all J self calls w = (None, w')
           \<and> files w' (file_name self) =
               Some (ujson_dump J (JArr (xs @ map (entry_of self) calls)))"
  using assms
proof (induction calls arbitrary: w xs)
  case Nil
  then show ?case by simp
next
  case (Cons call calls)
  obtain now L message where call: "call = (now, L, message)"
    by (cases call) auto
  have pass: "py_ge (rank L) (current_level self)"
    using Cons.prems(3) call by simp
  have idle: "max_file_size self \<le> 0
        \<or> int (length (ujson_dump J (JArr xs))) \<le> max_file_size self"
    using Cons.prems(5) by fastforce
  have load: "ujson_load J (ujson_dump J (JArr xs)) = Some (JArr xs)"
    using Cons.prems(6) by fastforce
  obtain w1 where w1: "emit J self now L message w = (None, w1)"
      "files w1 (file_name self) = Some (ujson_dump J (JArr (xs @ [entry_of self call])))"
      "unwritable w1 = unwritable w"
    using emit_appends [OF pass Cons.prems(1) Cons.prems(4) load Cons.prems(2) idle] call
    by blast
  have p5: "\<forall>k < length calls.
           max_file_size self \<le> 0
           \<or> int (length (ujson_dump J
                 (JArr ((xs @ [entry_of self call]) @ map (entry_of self) (take k calls)))))
               \<le> max_file_size self"
  proof (intro allI impI)
    fix k assume "k < length calls"
    then have "Suc k < length (call # calls)" by simp
    from Cons.prems(5) [rule_format, OF this] show
      "max_file_size self \<le> 0
       \<or> int (length (ujson_dump J
             (JArr ((xs @ [entry_of self call]) @ map (entry_of self) (take k calls)))))
           \<le> max_file_size self"
      by simp
  qed
  have p6: "\<forall>k < length calls.
           ujson_load J (ujson_dump J
               (JArr ((xs @ [entry_of self call]) @ map (entry_of self) (take k calls)))) =
             Some (JArr ((xs @ [entry_of self call]) @ map (entry_of self) (take k calls)))"
  proof (intro allI impI)
    fix k assume "k < length calls"
    then have "Suc k < length (call # calls)" by simp
    from Cons.prems(6) [rule_format, OF this] show
      "ujson_load J (ujson_dump J
               (JArr ((xs @ [entry_of self call]) @ map (entry_of self) (take k calls)))) =
             Some (JArr ((xs @ [entry_of self call]) @ map (entry_of self) (take k calls)))"
      by simp
  qed
  have p2: "file_name self \<notin> unwritable w1"
    using Cons.prems(2) w1(3) by simp
  have p3: "\<forall>call \<in> set calls. py_ge (rank (fst (snd call))) (current_level self)"
    using Cons.prems(3) by simp
  obtain w' where "emit_all J self calls w1 = (None, w')"
      "files w' (file_name self) =
         Some (ujson_dump J (JArr ((xs @ [entry_of self call]) @ map (entry_of self) calls)))"
    using Cons.IH [OF Cons.prems(1) p2 p3 w1(2) p5 p6] by blast
  then show ?case
    using w1(1) call by simp
qed

lemma entry_of_fields:
  "\<exists>fields. entry_of self (now, L, message) = JObj fields
      \<and> map_of fields ''level'' = Some (JStr (level_name L))
      \<and> map_of fields ''message'' = Some (JStr message)"
  by (simp add: entry_of_def make_log_message_def)

lemma init_json_writable:
  "fname \<notin> unwritable w0 \<Longrightarrow>
   Logger_init J level tc True fname mx col ''json'' w0 = (Inr self, w) \<Longrightarrow>
   log_to_file self \<and> file_name self = fname \<and> max_file_size self = mx
   \<and> unwritable w = unwritable w0 \<and> files w fname = Some (ujson_dump J (JArr []))"
  by (auto simp: Logger_init_def open_write_def)

text \<open>
  Claim C2. Construct a logger with the file sink enabled and format \<^verbatim>\<open>json\<close> on a path
  that can be written, and make \<open>N\<close> emit calls, each at or above the minimum level, with
  no rotation triggering (the maximum is 0, or the file is within it before each call).
  Given that the JSON library reads back the array texts it wrote on the way, every call
  returns normally, and the file then reads back as the array of exactly \<open>N\<close> objects, in
  call order, the object of each call holding the level name and the message of the call.
\<close>

theorem json_round_trip:
  assumes "fname \<notin> unwritable w0"
    and "Logger_init J level tc True fname mx col ''json'' w0 = (Inr self, w)"
    and "\<forall>call \<in> set calls. py_ge (rank (fst (snd call))) (current_level self)"
    and "\<forall>k < length calls.
           mx \<le> 0 \<or> int (length (array_text J self (take k calls))) \<le> mx"
    and "\<forall>k \<le> length calls.
           ujson_load J (array_text J self (take k calls)) =
             Some (JArr (map (entry_of self) (take k calls)))"
  shows "\<exists>w'. emit_all J self calls w = (None, w')
           \<and> files w' fname = Some (array_text J self calls)
           \<and> ujson_load J (array_text J self calls) = Some (JArr (map (entry_of self) calls))
           \<and> length (map (entry_of self) calls) = length calls
           \<and> (\<forall>i < length calls. \<exists>fields.
                  map (entry_of self) calls ! i = JObj fields
                  \<and> map_of fields ''level'' = Some (JStr (level_name (fst (snd (calls ! i)))))
                  \<and> map_of fields ''message'' = Some (JStr (snd (snd (calls ! i)))))"
proof -
  note i = init_json_writable [OF assms(1,2)]
  have p2: "file_name self \<notin> unwritable w"
    using i assms(1) by simp
  have p4: "files w (file_name self) = Some (ujson_dump J (JArr []))"
    using i by simp
  have p5: "\<forall>k < length calls.
      max_file_size self \<le> 0
      \<or> int (length (ujson_dump J (JArr ([] @ map (entry_of self) (take k calls)))))
          \<le> max_file_size self"
    using assms(4) i by (simp add: array_text_def)
  have p6: "\<forall>k < length calls.
      ujson_load J (ujson_dump J (JArr ([] @ map (entry_of self) (take k calls)))) =
        Some (JArr ([] @ map (entry_of self) (take k calls)))"
    using assms(5) by (simp add: array_text_def)
  obtain w' where run: "emit_all J self calls w = (None, w')"
      "files w' (file_name self) = Some (ujson_dump J (JArr ([] @ map (entry_of self) calls)))"
    using emit_all_appends [OF conjunct1 [OF i] p2 assms(3) p4 p5 p6] by blast
  have reread: "ujson_load J (array_text J self calls) = Some (JArr (map (entry_of self) calls))"
    using assms(5) [rule_format, of "length calls"] by simp
  have fields: "\<exists>fields.
        map (entry_of self) calls ! i = JObj fields
        \<and> map_of fields ''level'' = Some (JStr (level_name (fst (snd (calls ! i)))))
        \<and> map_of fields ''message'' = Some (JStr (snd (snd (calls ! i))))"
    if "i < length calls" for i
    using that entry_of_fields [of self "fst (calls ! i)" "fst (snd (calls ! i))"
        "snd (snd (calls ! i))"]
    by simp
  show ?thesis
    using run reread fields i by (auto simp: array_text_def)
qed

lemma two_calls_entries: "map (entry_of debug_logger) two_calls = [entry_a, entry_b]"
  by (simp add: two_calls_def entry_of_def make_log_message_def debug_logger_def COLORS_def
        timestamp_noon entry_a_def entry_b_def)

lemma upper_debug: "upper ''debug'' = ''DEBUG''"
  by code_simp

theorem json_round_trip_witness:
  "''t.log'' \<notin> unwritable blank_world
   \<and> Logger_init ujson ''debug'' False True ''t.log'' 0 False ''json'' blank_world =
       (Inr debug_logger, blank_world\<lparr>files := [''t.log'' \<mapsto> ''[]'']\<rparr>)
   \<and> fst (emit_all ujson debug_logger two_calls (blank_world\<lparr>files := [''t.log'' \<mapsto> ''[]'']\<rparr>))
       = None
   \<and> files (snd (emit_all ujson debug_logger two_calls
                   (blank_world\<lparr>files := [''t.log'' \<mapsto> ''[]'']\<rparr>))) ''t.log''
       = Some (dump_value (JArr [entry_a, entry_b]))
   \<and> loads (dump_value (JArr [entry_a, entry_b])) = Some (JArr [entry_a, entry_b])"
proof -
  have h1: "''t.log'' \<notin> unwritable blank_world"
    by (simp add: blank_world_def)
  have h2: "Logger_init ujson ''debug'' False True ''t.log'' 0 False ''json'' blank_world =
       (Inr debug_logger, blank_world\<lparr>files := [''t.log'' \<mapsto> ''[]'']\<rparr>)"
    by (simp add: Logger_init_def debug_logger_def blank_world_def open_write_def ujson_def
          LEVELS_get_def LEVELS_def upper_debug Let_def)
  have h3: "\<forall>call \<in> set two_calls. py_ge (rank (fst (snd call))) (current_level debug_logger)"
    by (simp add: two_calls_def debug_logger_def)
  have h4: "\<forall>k < length two_calls.
      (0::int) \<le> 0 \<or> int (length (array_text ujson debug_logger (take k two_calls))) \<le> 0"
    by simp
  have h5: "\<forall>k \<le> length two_calls.
      ujson_load ujson (array_text ujson debug_logger (take k two_calls)) =
        Some (JArr (map (entry_of debug_logger) (take k two_calls)))"
    by (simp add: array_text_def ujson_def loads_dump_value del: dump_value.simps)
  show ?thesis
    using json_round_trip [OF h1 h2 h3 h4 h5] h1 h2
    by (auto simp: array_text_def ujson_def two_calls_entries loads_dump_value
          simp del: dump_value.simps)
qed

end
